theory Spec2Isabelle
  imports Main
begin

section \<open>Data model of migration 904464ea4041\<close>

text \<open>
  The migration reads four tables. From \<open>pipeline_run\<close>, \<open>pipeline\<close> and \<open>model\<close> it
  selects the columns \<open>id\<close>, \<open>name\<close>, \<open>workspace_id\<close>; from \<open>model_version\<close> it selects
  \<open>id\<close>, \<open>name\<close>, \<open>number\<close>, \<open>model_id\<close>. A table is the list of its rows in the order
  in which a select returns them. The source's variable \<open>id_\<close> is written \<open>rid\<close>.
\<close>

record entity_row =
  e_id :: string
  e_name :: string
  e_workspace_id :: string

record version_row =
  v_id :: string
  v_name :: string
  v_number :: int
  v_model_id :: string

datatype table = PipelineRun | Pipeline | Model

fun table_name :: "table \<Rightarrow> string" where
  "table_name PipelineRun = ''pipeline_run''"
| "table_name Pipeline = ''pipeline''"
| "table_name Model = ''model''"

text \<open>Statements sent to the connection, in the order in which they are executed.\<close>

datatype stmt =
    UpdateName table string string
  | UpdateVersion string "string option" "int option"
  | CreateUnique string string "string list"
  | DropConstraint string string

text \<open>A call of \<open>logger.warning\<close>: the format string and its arguments.\<close>

type_synonym log_entry = "string \<times> string list"

record store =
  pipeline_run :: "entity_row list"
  pipeline :: "entity_row list"
  model :: "entity_row list"
  model_version :: "version_row list"
  constraints :: "(string \<times> string \<times> string list) list"
  executed :: "stmt list"
  warnings :: "log_entry list"

text \<open>
  The exceptions of the model: \<open>max\<close> of an empty set in the resolver, and the failures
  of the creation of a unique constraint.
\<close>

datatype error = ValueError | IntegrityError | NoSuchTableError | NoSuchColumnError

fun get_table :: "table \<Rightarrow> store \<Rightarrow> entity_row list" where
  "get_table PipelineRun w = pipeline_run w"
| "get_table Pipeline w = pipeline w"
| "get_table Model w = model w"

fun set_table :: "table \<Rightarrow> entity_row list \<Rightarrow> store \<Rightarrow> store" where
  "set_table PipelineRun rows w = w\<lparr>pipeline_run := rows\<rparr>"
| "set_table Pipeline rows w = w\<lparr>pipeline := rows\<rparr>"
| "set_table Model rows w = w\<lparr>model := rows\<rparr>"

section \<open>Collaborators: logging, updates, decimal rendering, max\<close>

definition log_warning :: "string \<Rightarrow> string list \<Rightarrow> store \<Rightarrow> store" where
  "log_warning fmt args w = w\<lparr>warnings := warnings w @ [(fmt, args)]\<rparr>"

text \<open>\<open>sa.update(table).where(table.c.id == id_).values(name=new_name)\<close>\<close>

definition set_name_where :: "string \<Rightarrow> string \<Rightarrow> entity_row \<Rightarrow> entity_row" where
  "set_name_where rid new_name r = (if e_id r = rid then r\<lparr>e_name := new_name\<rparr> else r)"

definition update_name :: "table \<Rightarrow> string \<Rightarrow> string \<Rightarrow> store \<Rightarrow> store" where
  "update_name t rid new_name w =
     set_table t (map (set_name_where rid new_name) (get_table t w))
       (w\<lparr>executed := executed w @ [UpdateName t rid new_name]\<rparr>)"

text \<open>
  \<open>sa.update(model_version_table).where(model_version_table.c.id == id_).values(**values)\<close>;
  the dictionary \<open>values\<close> has at most the keys \<open>name\<close> and \<open>number\<close>.
\<close>

definition set_values_where ::
  "string \<Rightarrow> string option \<times> int option \<Rightarrow> version_row \<Rightarrow> version_row" where
  "set_values_where rid vals r =
     (if v_id r = rid then
        (let r1 = (case fst vals of None \<Rightarrow> r | Some n \<Rightarrow> r\<lparr>v_name := n\<rparr>)
         in (case snd vals of None \<Rightarrow> r1 | Some k \<Rightarrow> r1\<lparr>v_number := k\<rparr>))
      else r)"

definition update_version :: "string \<Rightarrow> string option \<times> int option \<Rightarrow> store \<Rightarrow> store" where
  "update_version rid vals w =
     w\<lparr>model_version := map (set_values_where rid vals) (model_version w),
       executed := executed w @ [UpdateVersion rid (fst vals) (snd vals)]\<rparr>"

text \<open>Python's \<open>str\<close> on an integer: decimal digits, with a leading minus sign below zero.\<close>

definition digit_char :: "nat \<Rightarrow> char" where
  "digit_char d = ''0123456789'' ! d"

fun str_nat :: "nat \<Rightarrow> string" where
  "str_nat n = (if n < 10 then [digit_char n] else str_nat (n div 10) @ [digit_char (n mod 10)])"

declare str_nat.simps [simp del]

definition str_int :: "int \<Rightarrow> string" where
  "str_int i = (if i < 0 then CHR ''-'' # str_nat (nat (- i)) else str_nat (nat i))"

text \<open>Python's \<open>max\<close> on a set raises \<open>ValueError\<close> when the set is empty.\<close>

definition py_max :: "int set \<Rightarrow> error + int" where
  "py_max S = (if S = {} then Inl ValueError else Inr (Max S))"

section \<open>Simple entities: runs, pipelines and models (source lines 36 to 61)\<close>

text \<open>
  \<open>existing\<close> is a \<open>defaultdict(set)\<close>: a function whose value is the empty set until a
  name is added. \<open>id_[:6]\<close> is \<open>take 6 rid\<close>.
\<close>

definition simple_warning :: string where
  "simple_warning = ''Migrating %s name from %s to %s to resolve duplicate name.''"

fun resolve_rows ::
  "table \<Rightarrow> (string \<times> string \<times> string) list \<Rightarrow> (string \<Rightarrow> string set) \<Rightarrow> store \<Rightarrow> store" where
  "resolve_rows t [] existing w = w"
| "resolve_rows t ((rid, name, workspace_id) # rest) existing w =
     (if name \<in> existing workspace_id then
        (let new_name = name @ ''_'' @ take 6 rid;
             w1 = log_warning simple_warning [table_name t, name, new_name] w;
             w2 = update_name t rid new_name w1
         in resolve_rows t rest
              (existing(workspace_id := insert new_name (existing workspace_id))) w2)
      else
        resolve_rows t rest (existing(workspace_id := insert name (existing workspace_id))) w)"

definition select_entities :: "entity_row list \<Rightarrow> (string \<times> string \<times> string) list" where
  "select_entities rows = map (\<lambda>r. (e_id r, e_name r, e_workspace_id r)) rows"

definition resolve_table :: "table \<Rightarrow> store \<Rightarrow> store" where
  "resolve_table t w = resolve_rows t (select_entities (get_table t w)) (\<lambda>_. {}) w"

definition resolve_simple_entities :: "store \<Rightarrow> store" where
  "resolve_simple_entities w = foldl (\<lambda>w t. resolve_table t w) w [PipelineRun, Pipeline, Model]"

section \<open>Model versions (source lines 63 to 134)\<close>

type_synonym staged = "string \<times> string \<times> int \<times> string \<times> bool \<times> bool"

text \<open>Pass 1, lines 79 to 92: detection over the values as read.\<close>

fun detect ::
  "(string \<times> string \<times> int \<times> string) list \<Rightarrow> (string \<Rightarrow> string set) \<Rightarrow> (string \<Rightarrow> int set) \<Rightarrow>
   staged list \<Rightarrow> staged list \<times> (string \<Rightarrow> string set) \<times> (string \<Rightarrow> int set)" where
  "detect [] existing_names existing_numbers needs_update =
     (needs_update, existing_names, existing_numbers)"
| "detect ((rid, name, number, model_id) # rest) existing_names existing_numbers needs_update =
     (let needs_new_name = name \<in> existing_names model_id;
          needs_new_number = number \<in> existing_numbers model_id
      in detect rest
           (existing_names(model_id := insert name (existing_names model_id)))
           (existing_numbers(model_id := insert number (existing_numbers model_id)))
           (if needs_new_name \<or> needs_new_number
            then needs_update @ [(rid, name, number, model_id, needs_new_name, needs_new_number)]
            else needs_update))"

definition version_warning :: string where
  "version_warning = ''Migrating model version %s to %s to resolve duplicate name.''"

text \<open>Pass 2, lines 102 to 134: the body of the loop for one staged row.\<close>

definition fix_row ::
  "staged \<Rightarrow> (string \<Rightarrow> int set) \<Rightarrow> store \<Rightarrow> error + (store \<times> (string \<Rightarrow> int set))" where
  "fix_row u existing_numbers w =
     (case u of (rid, name, number, model_id, needs_new_name, needs_new_number) \<Rightarrow>
        (case py_max (existing_numbers model_id) of
           Inl e \<Rightarrow> Inl e
         | Inr m \<Rightarrow>
            (let next_numeric_version = m + 1;
                 allocated = existing_numbers
                   (model_id := insert next_numeric_version (existing_numbers model_id))
             in if str_int number = name then
                  Inr (update_version rid
                         (Some (str_int next_numeric_version), Some next_numeric_version)
                         (log_warning version_warning [name, str_int next_numeric_version] w),
                       allocated)
                else
                  (let new_name = name @ ''_'' @ take 6 rid;
                       w1 = (if needs_new_name
                             then log_warning version_warning [name, new_name] w else w)
                   in Inr (update_version rid
                             (if needs_new_name then Some new_name else None,
                              if needs_new_number then Some next_numeric_version else None) w1,
                           if needs_new_number then allocated else existing_numbers)))))"

text \<open>
  Pass 2, line 94: the loop over the staged rows. It changes the store and the dictionary
  \<open>existing_numbers\<close>, and both are returned.
\<close>

fun fix_all ::
  "staged list \<Rightarrow> (string \<Rightarrow> int set) \<Rightarrow> store \<Rightarrow> error + (store \<times> (string \<Rightarrow> int set))" where
  "fix_all [] existing_numbers w = Inr (w, existing_numbers)"
| "fix_all (u # rest) existing_numbers w =
     (case fix_row u existing_numbers w of
        Inl e \<Rightarrow> Inl e
      | Inr (w1, existing_numbers1) \<Rightarrow> fix_all rest existing_numbers1 w1)"

definition select_versions :: "version_row list \<Rightarrow> (string \<times> string \<times> int \<times> string) list" where
  "select_versions rows = map (\<lambda>r. (v_id r, v_name r, v_number r, v_model_id r)) rows"

definition resolve_model_versions :: "store \<Rightarrow> error + store" where
  "resolve_model_versions w =
     (case detect (select_versions (model_version w)) (\<lambda>_. {}) (\<lambda>_. {}) [] of
        (needs_update, existing_names, existing_numbers) \<Rightarrow>
          (case fix_all needs_update existing_numbers w of
             Inl e \<Rightarrow> Inl e
           | Inr (w1, existing_numbers1) \<Rightarrow> Inr w1))"

definition resolve_duplicate_entities :: "store \<Rightarrow> error + store" where
  "resolve_duplicate_entities w = resolve_model_versions (resolve_simple_entities w)"

section \<open>Upgrade and downgrade (source lines 137 to 192)\<close>

text \<open>
  Modelled from the spec: the creation of a unique constraint, which the source calls on
  the migration library and which is not in the source. It fails when the rows of the
  table hold the same values twice in the columns of the constraint (sections 4.4 and 7 of
  the specification: constraint creation fails against leftover duplicates, and the
  failure is propagated); otherwise it records the constraint under the name given, in
  place of a constraint of the table that has this name already. Only the columns the
  migration selects are modelled.
\<close>

datatype cell = Text string | Number int

definition table_columns :: "string \<Rightarrow> string list option" where
  "table_columns tbl =
     (if tbl = ''pipeline_run'' \<or> tbl = ''pipeline'' \<or> tbl = ''model''
      then Some [''id'', ''name'', ''workspace_id'']
      else if tbl = ''model_version'' then Some [''id'', ''name'', ''number'', ''model_id'']
      else None)"

definition entity_cell :: "string \<Rightarrow> entity_row \<Rightarrow> cell" where
  "entity_cell col r =
     (if col = ''id'' then Text (e_id r)
      else if col = ''name'' then Text (e_name r)
      else Text (e_workspace_id r))"

definition version_cell :: "string \<Rightarrow> version_row \<Rightarrow> cell" where
  "version_cell col r =
     (if col = ''id'' then Text (v_id r)
      else if col = ''name'' then Text (v_name r)
      else if col = ''number'' then Number (v_number r)
      else Text (v_model_id r))"

definition key_tuples :: "string \<Rightarrow> string list \<Rightarrow> store \<Rightarrow> cell list list" where
  "key_tuples tbl cols w =
     (if tbl = ''pipeline_run'' then map (\<lambda>r. map (\<lambda>c. entity_cell c r) cols) (pipeline_run w)
      else if tbl = ''pipeline'' then map (\<lambda>r. map (\<lambda>c. entity_cell c r) cols) (pipeline w)
      else if tbl = ''model'' then map (\<lambda>r. map (\<lambda>c. entity_cell c r) cols) (model w)
      else map (\<lambda>r. map (\<lambda>c. version_cell c r) cols) (model_version w))"

definition put_constraint ::
  "string \<times> string \<times> string list \<Rightarrow> (string \<times> string \<times> string list) list \<Rightarrow>
   (string \<times> string \<times> string list) list" where
  "put_constraint c cs =
     (if (fst c, fst (snd c)) \<in> set (map (\<lambda>d. (fst d, fst (snd d))) cs)
      then map (\<lambda>d. if (fst d, fst (snd d)) = (fst c, fst (snd c)) then c else d) cs
      else cs @ [c])"

definition create_unique_constraint ::
  "string \<Rightarrow> string \<Rightarrow> string list \<Rightarrow> store \<Rightarrow> error + store" where
  "create_unique_constraint tbl cname cols w =
     (case table_columns tbl of
        None \<Rightarrow> Inl NoSuchTableError
      | Some known \<Rightarrow>
          if \<not> set cols \<subseteq> set known then Inl NoSuchColumnError
          else if \<not> distinct (key_tuples tbl cols w) then Inl IntegrityError
          else Inr (w\<lparr>constraints := put_constraint (tbl, cname, cols) (constraints w),
                     executed := executed w @ [CreateUnique tbl cname cols]\<rparr>))"

text \<open>An exception ends the function that raised it: the next call runs on success only.\<close>

definition then_do :: "error + store \<Rightarrow> (store \<Rightarrow> error + store) \<Rightarrow> error + store" where
  "then_do r f = (case r of Inl e \<Rightarrow> Inl e | Inr w \<Rightarrow> f w)"

definition drop_constraint :: "string \<Rightarrow> string \<Rightarrow> store \<Rightarrow> store" where
  "drop_constraint tbl cname w =
     w\<lparr>constraints := filter (\<lambda>(t, c, cols). \<not> (t = tbl \<and> c = cname)) (constraints w),
       executed := executed w @ [DropConstraint tbl cname]\<rparr>"

text \<open>Lines 142 to 164: the five constraints, in the order of the source.\<close>

definition add_constraints :: "store \<Rightarrow> error + store" where
  "add_constraints w =
     then_do (then_do (then_do (then_do
       (create_unique_constraint ''pipeline'' ''unique_pipeline_name_in_workspace''
          [''name'', ''workspace_id''] w)
       (create_unique_constraint ''pipeline_run'' ''unique_run_name_in_workspace''
          [''name'', ''workspace_id'']))
       (create_unique_constraint ''model'' ''unique_model_name_in_workspace''
          [''name'', ''workspace_id'']))
       (create_unique_constraint ''model_version'' ''unique_version_for_model_id''
          [''name'', ''model_id'']))
       (create_unique_constraint ''model_version'' ''unique_version_number_for_model_id''
          [''number'', ''model_id''])"

definition upgrade :: "store \<Rightarrow> error + store" where
  "upgrade w = then_do (resolve_duplicate_entities w) add_constraints"

definition downgrade :: "store \<Rightarrow> store" where
  "downgrade w =
     drop_constraint ''pipeline'' ''unique_pipeline_name_in_workspace''
     (drop_constraint ''pipeline_run'' ''unique_run_name_in_workspace''
     (drop_constraint ''model'' ''unique_model_name_in_workspace''
     (drop_constraint ''model_version'' ''unique_version_for_model_id''
     (drop_constraint ''model_version'' ''unique_version_number_for_model_id'' w))))"

section \<open>Example stores\<close>

text \<open>Scenario B of the specification: two versions of one model, both named and numbered 1.\<close>

definition scenario_b :: store where
  "scenario_b = \<lparr>pipeline_run = [], pipeline = [], model = [],
     model_version = [\<lparr>v_id = ''v1'', v_name = ''1'', v_number = 1, v_model_id = ''m1''\<rparr>,
                      \<lparr>v_id = ''v2'', v_name = ''1'', v_number = 1, v_model_id = ''m1''\<rparr>],
     constraints = [], executed = [], warnings = []\<rparr>"

text \<open>Two versions with different custom names and the same number.\<close>

definition number_clash :: store where
  "number_clash = \<lparr>pipeline_run = [], pipeline = [], model = [],
     model_version = [\<lparr>v_id = ''v1'', v_name = ''alpha'', v_number = 1, v_model_id = ''m1''\<rparr>,
                      \<lparr>v_id = ''v2'', v_name = ''beta'', v_number = 1, v_model_id = ''m1''\<rparr>],
     constraints = [], executed = [], warnings = []\<rparr>"

section \<open>The effect of the loops, as lists\<close>

text \<open>
  The renames the loop of lines 43 to 61 performs on the rows read, in order: the id of
  the row, the name read and the name written.
\<close>

fun simple_fixes ::
  "(string \<times> string \<times> string) list \<Rightarrow> (string \<Rightarrow> string set) \<Rightarrow>
   (string \<times> string \<times> string) list" where
  "simple_fixes [] existing = []"
| "simple_fixes ((rid, name, workspace_id) # rest) existing =
     (if name \<in> existing workspace_id then
        (rid, name, name @ ''_'' @ take 6 rid) #
        simple_fixes rest
          (existing(workspace_id := insert (name @ ''_'' @ take 6 rid) (existing workspace_id)))
      else simple_fixes rest (existing(workspace_id := insert name (existing workspace_id))))"

definition apply_renames ::
  "(string \<times> string \<times> string) list \<Rightarrow> entity_row list \<Rightarrow> entity_row list" where
  "apply_renames fixes rows = foldl (\<lambda>T (rid, old, new). map (set_name_where rid new) T) rows fixes"

text \<open>The rows pass 1 stages and the sets it leaves behind.\<close>

fun flagged ::
  "(string \<times> string \<times> int \<times> string) list \<Rightarrow> (string \<Rightarrow> string set) \<Rightarrow> (string \<Rightarrow> int set) \<Rightarrow>
   staged list" where
  "flagged [] existing_names existing_numbers = []"
| "flagged ((rid, name, number, model_id) # rest) existing_names existing_numbers =
     (if name \<in> existing_names model_id \<or> number \<in> existing_numbers model_id
      then [(rid, name, number, model_id,
             name \<in> existing_names model_id, number \<in> existing_numbers model_id)]
      else []) @
     flagged rest
       (existing_names(model_id := insert name (existing_names model_id)))
       (existing_numbers(model_id := insert number (existing_numbers model_id)))"

fun names_after ::
  "(string \<times> string \<times> int \<times> string) list \<Rightarrow> (string \<Rightarrow> string set) \<Rightarrow> (string \<Rightarrow> string set)" where
  "names_after [] existing_names = existing_names"
| "names_after ((rid, name, number, model_id) # rest) existing_names =
     names_after rest (existing_names(model_id := insert name (existing_names model_id)))"

fun numbers_after ::
  "(string \<times> string \<times> int \<times> string) list \<Rightarrow> (string \<Rightarrow> int set) \<Rightarrow> (string \<Rightarrow> int set)" where
  "numbers_after [] existing_numbers = existing_numbers"
| "numbers_after ((rid, name, number, model_id) # rest) existing_numbers =
     numbers_after rest (existing_numbers(model_id := insert number (existing_numbers model_id)))"

text \<open>
  The values one step of pass 2 writes and the set of numbers it leaves, when \<open>max\<close> is
  defined.
\<close>

definition plan_row ::
  "staged \<Rightarrow> (string \<Rightarrow> int set) \<Rightarrow> (string option \<times> int option) \<times> (string \<Rightarrow> int set)" where
  "plan_row u existing_numbers =
     (case u of (rid, name, number, model_id, needs_new_name, needs_new_number) \<Rightarrow>
        (let next_numeric_version = Max (existing_numbers model_id) + 1;
             allocated = existing_numbers
               (model_id := insert next_numeric_version (existing_numbers model_id))
         in if str_int number = name
            then ((Some (str_int next_numeric_version), Some next_numeric_version), allocated)
            else ((if needs_new_name then Some (name @ ''_'' @ take 6 rid) else None,
                   if needs_new_number then Some next_numeric_version else None),
                  if needs_new_number then allocated else existing_numbers)))"

fun version_fixes ::
  "staged list \<Rightarrow> (string \<Rightarrow> int set) \<Rightarrow> (string \<times> string \<times> string option \<times> int option) list" where
  "version_fixes [] existing_numbers = []"
| "version_fixes (u # rest) existing_numbers =
     (fst u, fst (snd u), fst (plan_row u existing_numbers)) #
     version_fixes rest (snd (plan_row u existing_numbers))"

text \<open>The dictionary \<open>existing_numbers\<close> after pass 2 has fixed the rows given.\<close>

fun numbers_fixed :: "staged list \<Rightarrow> (string \<Rightarrow> int set) \<Rightarrow> (string \<Rightarrow> int set)" where
  "numbers_fixed [] existing_numbers = existing_numbers"
| "numbers_fixed (u # rest) existing_numbers =
     numbers_fixed rest (snd (plan_row u existing_numbers))"

definition apply_values ::
  "(string \<times> string \<times> string option \<times> int option) list \<Rightarrow> version_row list \<Rightarrow> version_row list" where
  "apply_values fixes rows =
     foldl (\<lambda>T (rid, old, vals). map (set_values_where rid vals) T) rows fixes"

definition version_audit :: "string \<times> string \<times> string option \<times> int option \<Rightarrow> log_entry list" where
  "version_audit f =
     (case f of (rid, old, new, k) \<Rightarrow>
        (case new of None \<Rightarrow> [] | Some n \<Rightarrow> [(version_warning, [old, n])]))"

definition is_update :: "stmt \<Rightarrow> bool" where
  "is_update s = (case s of UpdateName t rid n \<Rightarrow> True | UpdateVersion rid n k \<Rightarrow> True
                  | CreateUnique t c cols \<Rightarrow> False | DropConstraint t c \<Rightarrow> False)"

text \<open>The fixes pass 2 applies to the model versions of a store.\<close>

definition planned_fixes :: "store \<Rightarrow> (string \<times> string \<times> string option \<times> int option) list" where
  "planned_fixes w =
     version_fixes (flagged (select_versions (model_version w)) (\<lambda>_. {}) (\<lambda>_. {}))
       (numbers_after (select_versions (model_version w)) (\<lambda>_. {}))"

text \<open>The renames the first loop applies to one of the three tables of a store.\<close>

definition table_fixes :: "table \<Rightarrow> store \<Rightarrow> (string \<times> string \<times> string) list" where
  "table_fixes t w = simple_fixes (select_entities (get_table t w)) (\<lambda>_. {})"

text \<open>A store with no rows and no constraints.\<close>

definition empty_store :: store where
  "empty_store = \<lparr>pipeline_run = [], pipeline = [], model = [], model_version = [],
     constraints = [], executed = [], warnings = []\<rparr>"

text \<open>The constraint a statement creates or drops: its table and its name.\<close>

fun created :: "stmt \<Rightarrow> (string \<times> string) list" where
  "created (CreateUnique tbl cname cols) = [(tbl, cname)]"
| "created s = []"

fun dropped :: "stmt \<Rightarrow> (string \<times> string) list" where
  "dropped (DropConstraint tbl cname) = [(tbl, cname)]"
| "dropped s = []"

definition simple_updates :: "table \<Rightarrow> store \<Rightarrow> stmt list" where
  "simple_updates t w = map (\<lambda>(rid, old, new). UpdateName t rid new) (table_fixes t w)"

definition simple_audit :: "table \<Rightarrow> store \<Rightarrow> log_entry list" where
  "simple_audit t w =
     map (\<lambda>(rid, old, new). (simple_warning, [table_name t, old, new])) (table_fixes t w)"

definition version_updates :: "store \<Rightarrow> stmt list" where
  "version_updates w =
     map (\<lambda>(rid, old, vals). UpdateVersion rid (fst vals) (snd vals)) (planned_fixes w)"

text \<open>The statements one run of \<open>resolve_duplicate_entities\<close> executes on a store.\<close>

definition run_updates :: "store \<Rightarrow> stmt list" where
  "run_updates w =
     simple_updates PipelineRun w @ simple_updates Pipeline w @ simple_updates Model w @
     version_updates w"

definition run_audit :: "store \<Rightarrow> log_entry list" where
  "run_audit w =
     simple_audit PipelineRun w @ simple_audit Pipeline w @ simple_audit Model w @
     concat (map version_audit (planned_fixes w))"

text \<open>Scenario A of the specification: two pipelines named \<open>p\<close> in one workspace.\<close>

definition scenario_a :: store where
  "scenario_a = \<lparr>pipeline_run = [],
     pipeline = [\<lparr>e_id = ''a1'', e_name = ''p'', e_workspace_id = ''ws1''\<rparr>,
                 \<lparr>e_id = ''b2xxxxyy'', e_name = ''p'', e_workspace_id = ''ws1''\<rparr>],
     model = [], model_version = [], constraints = [], executed = [], warnings = []\<rparr>"

text \<open>The store \<open>upgrade\<close> makes of scenario A.\<close>

definition scenario_a_upgraded :: store where
  "scenario_a_upgraded = \<lparr>pipeline_run = [],
     pipeline = [\<lparr>e_id = ''a1'', e_name = ''p'', e_workspace_id = ''ws1''\<rparr>,
                 \<lparr>e_id = ''b2xxxxyy'', e_name = ''p_b2xxxx'', e_workspace_id = ''ws1''\<rparr>],
     model = [], model_version = [],
     constraints =
       [(''pipeline'', ''unique_pipeline_name_in_workspace'', [''name'', ''workspace_id'']),
        (''pipeline_run'', ''unique_run_name_in_workspace'', [''name'', ''workspace_id'']),
        (''model'', ''unique_model_name_in_workspace'', [''name'', ''workspace_id'']),
        (''model_version'', ''unique_version_for_model_id'', [''name'', ''model_id'']),
        (''model_version'', ''unique_version_number_for_model_id'', [''number'', ''model_id''])],
     executed =
       [UpdateName Pipeline ''b2xxxxyy'' ''p_b2xxxx'',
        CreateUnique ''pipeline'' ''unique_pipeline_name_in_workspace'' [''name'', ''workspace_id''],
        CreateUnique ''pipeline_run'' ''unique_run_name_in_workspace'' [''name'', ''workspace_id''],
        CreateUnique ''model'' ''unique_model_name_in_workspace'' [''name'', ''workspace_id''],
        CreateUnique ''model_version'' ''unique_version_for_model_id'' [''name'', ''model_id''],
        CreateUnique ''model_version'' ''unique_version_number_for_model_id''
          [''number'', ''model_id'']],
     warnings = [(simple_warning, [''pipeline'', ''p'', ''p_b2xxxx''])]\<rparr>"

section \<open>What the first loop does to each row read\<close>

text \<open>
  Row by row, in read order: the rename the loop of lines 43 to 61 performs on the row, if
  any; the name and scope the row ends with; the dictionary \<open>existing\<close> after the loop;
  and whether every synthesized name was new to the set of its scope when it was made.
\<close>

fun somes :: "'a option list \<Rightarrow> 'a list" where
  "somes [] = []"
| "somes (None # xs) = somes xs"
| "somes (Some x # xs) = x # somes xs"

fun simple_plan ::
  "(string \<times> string \<times> string) list \<Rightarrow> (string \<Rightarrow> string set) \<Rightarrow>
   (string \<times> string \<times> string) option list" where
  "simple_plan [] existing = []"
| "simple_plan ((rid, name, workspace_id) # rest) existing =
     (if name \<in> existing workspace_id then
        Some (rid, name, name @ ''_'' @ take 6 rid) #
        simple_plan rest
          (existing(workspace_id := insert (name @ ''_'' @ take 6 rid) (existing workspace_id)))
      else None #
        simple_plan rest (existing(workspace_id := insert name (existing workspace_id))))"

fun final_pairs ::
  "(string \<times> string \<times> string) list \<Rightarrow> (string \<Rightarrow> string set) \<Rightarrow> (string \<times> string) list" where
  "final_pairs [] existing = []"
| "final_pairs ((rid, name, workspace_id) # rest) existing =
     (if name \<in> existing workspace_id then
        (name @ ''_'' @ take 6 rid, workspace_id) #
        final_pairs rest
          (existing(workspace_id := insert (name @ ''_'' @ take 6 rid) (existing workspace_id)))
      else (name, workspace_id) #
        final_pairs rest (existing(workspace_id := insert name (existing workspace_id))))"

fun seen_after ::
  "(string \<times> string \<times> string) list \<Rightarrow> (string \<Rightarrow> string set) \<Rightarrow> (string \<Rightarrow> string set)" where
  "seen_after [] existing = existing"
| "seen_after ((rid, name, workspace_id) # rest) existing =
     (if name \<in> existing workspace_id then
        seen_after rest
          (existing(workspace_id := insert (name @ ''_'' @ take 6 rid) (existing workspace_id)))
      else seen_after rest (existing(workspace_id := insert name (existing workspace_id))))"

fun renames_fresh :: "(string \<times> string \<times> string) list \<Rightarrow> (string \<Rightarrow> string set) \<Rightarrow> bool" where
  "renames_fresh [] existing = True"
| "renames_fresh ((rid, name, workspace_id) # rest) existing =
     (if name \<in> existing workspace_id then
        name @ ''_'' @ take 6 rid \<notin> existing workspace_id \<and>
        renames_fresh rest
          (existing(workspace_id := insert (name @ ''_'' @ take 6 rid) (existing workspace_id)))
      else renames_fresh rest (existing(workspace_id := insert name (existing workspace_id))))"

text \<open>The columns the unique constraints are about.\<close>

definition name_scope_pairs :: "entity_row list \<Rightarrow> (string \<times> string) list" where
  "name_scope_pairs rows = map (\<lambda>r. (e_name r, e_workspace_id r)) rows"

definition name_group_pairs :: "version_row list \<Rightarrow> (string \<times> string) list" where
  "name_group_pairs rows = map (\<lambda>r. (v_name r, v_model_id r)) rows"

definition number_group_pairs :: "version_row list \<Rightarrow> (int \<times> string) list" where
  "number_group_pairs rows = map (\<lambda>r. (v_number r, v_model_id r)) rows"

text \<open>
  Three pipelines of one workspace with distinct ids: the first is already named as the
  rename of the third will be.
\<close>

definition suffix_clash :: store where
  "suffix_clash = \<lparr>pipeline_run = [],
     pipeline = [\<lparr>e_id = ''11111111'', e_name = ''p_333333'', e_workspace_id = ''ws1''\<rparr>,
                 \<lparr>e_id = ''22222222'', e_name = ''p'', e_workspace_id = ''ws1''\<rparr>,
                 \<lparr>e_id = ''33333333'', e_name = ''p'', e_workspace_id = ''ws1''\<rparr>],
     model = [], model_version = [], constraints = [], executed = [], warnings = []\<rparr>"

text \<open>
  Three pipelines of one workspace with distinct ids: the third is the first to carry its
  name, which is the name the second is renamed to.
\<close>

definition early_clash :: store where
  "early_clash = \<lparr>pipeline_run = [],
     pipeline = [\<lparr>e_id = ''aaaaaaaa'', e_name = ''p'', e_workspace_id = ''ws1''\<rparr>,
                 \<lparr>e_id = ''bbbbbb11'', e_name = ''p'', e_workspace_id = ''ws1''\<rparr>,
                 \<lparr>e_id = ''cccccccc'', e_name = ''p_bbbbbb'', e_workspace_id = ''ws1''\<rparr>],
     model = [], model_version = [], constraints = [], executed = [], warnings = []\<rparr>"

text \<open>No table of the store holds a pair the unique constraints forbid.\<close>

definition duplicate_free :: "store \<Rightarrow> bool" where
  "duplicate_free w \<longleftrightarrow>
     distinct (name_scope_pairs (pipeline_run w)) \<and>
     distinct (name_scope_pairs (pipeline w)) \<and>
     distinct (name_scope_pairs (model w)) \<and>
     distinct (name_group_pairs (model_version w)) \<and>
     distinct (number_group_pairs (model_version w))"

section \<open>What the two passes do to each model version read\<close>

text \<open>
  Row by row, in read order: the fix pass 2 applies to the row, if pass 1 staged it. The
  sets of pass 1 are those before the row; the set of numbers of pass 2 is the one left
  by pass 1 and by the fixes of the rows staged before.
\<close>

fun version_plan ::
  "(string \<times> string \<times> int \<times> string) list \<Rightarrow> (string \<Rightarrow> string set) \<Rightarrow> (string \<Rightarrow> int set) \<Rightarrow>
   (string \<Rightarrow> int set) \<Rightarrow> (string \<times> string \<times> string option \<times> int option) option list" where
  "version_plan [] existing_names existing_numbers allocated = []"
| "version_plan ((rid, name, number, model_id) # rest) existing_names existing_numbers allocated =
     (if name \<in> existing_names model_id \<or> number \<in> existing_numbers model_id
      then Some (rid, name,
               fst (plan_row (rid, name, number, model_id,
                      name \<in> existing_names model_id, number \<in> existing_numbers model_id)
                    allocated)) #
           version_plan rest
             (existing_names(model_id := insert name (existing_names model_id)))
             (existing_numbers(model_id := insert number (existing_numbers model_id)))
             (snd (plan_row (rid, name, number, model_id,
                     name \<in> existing_names model_id, number \<in> existing_numbers model_id)
                   allocated))
      else None #
           version_plan rest
             (existing_names(model_id := insert name (existing_names model_id)))
             (existing_numbers(model_id := insert number (existing_numbers model_id)))
             allocated)"

text \<open>The name and the number a row ends with, given the fix applied to it.\<close>

definition final_name ::
  "string \<Rightarrow> (string \<times> string \<times> string option \<times> int option) option \<Rightarrow> string" where
  "final_name name opt =
     (case opt of None \<Rightarrow> name
      | Some f \<Rightarrow> (case fst (snd (snd f)) of None \<Rightarrow> name | Some n \<Rightarrow> n))"

definition final_number ::
  "int \<Rightarrow> (string \<times> string \<times> string option \<times> int option) option \<Rightarrow> int" where
  "final_number number opt =
     (case opt of None \<Rightarrow> number
      | Some f \<Rightarrow> (case snd (snd (snd f)) of None \<Rightarrow> number | Some k \<Rightarrow> k))"

text \<open>The log entries that record the rows whose name differs between two states of a table.\<close>

definition renamed_entities :: "table \<Rightarrow> entity_row list \<Rightarrow> entity_row list \<Rightarrow> log_entry list" where
  "renamed_entities t before after =
     concat (map2 (\<lambda>r r'. if e_name r' \<noteq> e_name r
                           then [(simple_warning, [table_name t, e_name r, e_name r'])] else [])
               before after)"

definition renamed_versions :: "version_row list \<Rightarrow> version_row list \<Rightarrow> log_entry list" where
  "renamed_versions before after =
     concat (map2 (\<lambda>r r'. if v_name r' \<noteq> v_name r
                           then [(version_warning, [v_name r, v_name r'])] else [])
               before after)"

text \<open>The (name, model_id) pairs of the rows whose name is the same in both states.\<close>

definition kept_name_pairs :: "version_row list \<Rightarrow> version_row list \<Rightarrow> (string \<times> string) list" where
  "kept_name_pairs before after =
     map (\<lambda>(r, r'). (v_name r', v_model_id r'))
       (filter (\<lambda>(r, r'). v_name r' = v_name r) (zip before after))"

text \<open>
  For the rows read and their fixes: the (number, model_id) pairs the rows end with, and
  the (name, model_id) pairs of the rows that end with the name they were read with.
\<close>

definition final_number_pairs ::
  "(string \<times> string \<times> int \<times> string) list \<Rightarrow>
   (string \<times> string \<times> string option \<times> int option) option list \<Rightarrow> (int \<times> string) list" where
  "final_number_pairs rows plan =
     map2 (\<lambda>row opt. (final_number (fst (snd (snd row))) opt, snd (snd (snd row)))) rows plan"

definition unchanged_name_pairs ::
  "(string \<times> string \<times> int \<times> string) list \<Rightarrow>
   (string \<times> string \<times> string option \<times> int option) option list \<Rightarrow> (string \<times> string) list" where
  "unchanged_name_pairs rows plan =
     map (\<lambda>(row, opt). (fst (snd row), snd (snd (snd row))))
       (filter (\<lambda>(row, opt). final_name (fst (snd row)) opt = fst (snd row)) (zip rows plan))"

text \<open>
  Three versions of one model with distinct ids: the second is renamed and renumbered to
  2, the name the third was given by hand.
\<close>

definition numeric_clash :: store where
  "numeric_clash = \<lparr>pipeline_run = [], pipeline = [], model = [],
     model_version = [\<lparr>v_id = ''v1'', v_name = ''1'', v_number = 1, v_model_id = ''m1''\<rparr>,
                      \<lparr>v_id = ''v2'', v_name = ''1'', v_number = 1, v_model_id = ''m1''\<rparr>,
                      \<lparr>v_id = ''v3'', v_name = ''2'', v_number = 0, v_model_id = ''m1''\<rparr>],
     constraints = [], executed = [], warnings = []\<rparr>"

text \<open>
  For the rows read and their fixes: the log entries for the rows that end with another
  name than the one read. For a statement: the name it writes, if it writes one.
\<close>

definition version_name_changes ::
  "(string \<times> string \<times> int \<times> string) list \<Rightarrow>
   (string \<times> string \<times> string option \<times> int option) option list \<Rightarrow> log_entry list" where
  "version_name_changes rows plan =
     concat (map2 (\<lambda>row opt. if final_name (fst (snd row)) opt \<noteq> fst (snd row)
                              then [(version_warning,
                                     [fst (snd row), final_name (fst (snd row)) opt])]
                              else [])
               rows plan)"

fun written_name :: "stmt \<Rightarrow> string list" where
  "written_name (UpdateName t rid new_name) = [new_name]"
| "written_name (UpdateVersion rid (Some new_name) k) = [new_name]"
| "written_name s = []"

text \<open>The constraints \<open>upgrade\<close> creates, in the order of lines 142 to 164.\<close>

definition upgrade_constraints :: "(string \<times> string \<times> string list) list" where
  "upgrade_constraints =
     [(''pipeline'', ''unique_pipeline_name_in_workspace'', [''name'', ''workspace_id'']),
      (''pipeline_run'', ''unique_run_name_in_workspace'', [''name'', ''workspace_id'']),
      (''model'', ''unique_model_name_in_workspace'', [''name'', ''workspace_id'']),
      (''model_version'', ''unique_version_for_model_id'', [''name'', ''model_id'']),
      (''model_version'', ''unique_version_number_for_model_id'', [''number'', ''model_id''])]"

text \<open>Three versions of one model, all named and numbered 1.\<close>

definition three_ones :: store where
  "three_ones = \<lparr>pipeline_run = [], pipeline = [], model = [],
     model_version = [\<lparr>v_id = ''v1'', v_name = ''1'', v_number = 1, v_model_id = ''m1''\<rparr>,
                      \<lparr>v_id = ''v2'', v_name = ''1'', v_number = 1, v_model_id = ''m1''\<rparr>,
                      \<lparr>v_id = ''v3'', v_name = ''1'', v_number = 1, v_model_id = ''m1''\<rparr>],
     constraints = [], executed = [], warnings = []\<rparr>"

text \<open>Three versions of one model with different custom names, all numbered 1.\<close>

definition three_custom :: store where
  "three_custom = \<lparr>pipeline_run = [], pipeline = [], model = [],
     model_version = [\<lparr>v_id = ''v1'', v_name = ''alpha'', v_number = 1, v_model_id = ''m1''\<rparr>,
                      \<lparr>v_id = ''v2'', v_name = ''beta'', v_number = 1, v_model_id = ''m1''\<rparr>,
                      \<lparr>v_id = ''v3'', v_name = ''gamma'', v_number = 1, v_model_id = ''m1''\<rparr>],
     constraints = [], executed = [], warnings = []\<rparr>"

section \<open>Properties\<close>

subsection \<open>One step of pass 2\<close>

lemma py_max_nonempty: "S \<noteq> {} \<Longrightarrow> py_max S = Inr (Max S)"
  by (simp add: py_max_def)

lemma set_values_both:
  "set_values_where rid (Some n, Some k) r =
     (if v_id r = rid then r\<lparr>v_name := n, v_number := k\<rparr> else r)"
  by (simp add: set_values_where_def)

lemma set_values_number:
  "set_values_where rid (None, Some k) r = (if v_id r = rid then r\<lparr>v_number := k\<rparr> else r)"
  by (simp add: set_values_where_def)

lemma above_Max_fresh:
  fixes S :: "int set"
  assumes "finite S" and "k = Max S + 1"
  shows "k \<notin> S"
proof
  assume "k \<in> S"
  then have "k \<le> Max S" using assms(1) by (rule Max_ge [rotated])
  then show False using assms(2) by simp
qed

text \<open>The body of the loop of pass 2 on a row in numeric form.\<close>

lemma fix_row_numeric_step:
  assumes "str_int number = name"
    and "finite (existing_numbers model_id)"
    and "existing_numbers model_id \<noteq> {}"
    and "next_version = Max (existing_numbers model_id) + 1"
  shows "next_version \<notin> existing_numbers model_id \<and>
     fix_row (rid, name, number, model_id, needs_new_name, needs_new_number) existing_numbers w =
       Inr (w\<lparr>model_version :=
                 map (\<lambda>r. if v_id r = rid
                           then r\<lparr>v_name := str_int next_version, v_number := next_version\<rparr>
                           else r) (model_version w),
               executed := executed w @
                 [UpdateVersion rid (Some (str_int next_version)) (Some next_version)],
               warnings := warnings w @ [(version_warning, [name, str_int next_version])]\<rparr>,
            existing_numbers(model_id := insert next_version (existing_numbers model_id)))"
proof
  show "next_version \<notin> existing_numbers model_id"
    using assms(2,4) by (rule above_Max_fresh)
next
  have m: "py_max (existing_numbers model_id) = Inr (next_version - 1)"
    using assms(3,4) by (simp add: py_max_nonempty)
  show "fix_row (rid, name, number, model_id, needs_new_name, needs_new_number) existing_numbers w =
       Inr (w\<lparr>model_version :=
                 map (\<lambda>r. if v_id r = rid
                           then r\<lparr>v_name := str_int next_version, v_number := next_version\<rparr>
                           else r) (model_version w),
               executed := executed w @
                 [UpdateVersion rid (Some (str_int next_version)) (Some next_version)],
               warnings := warnings w @ [(version_warning, [name, str_int next_version])]\<rparr>,
            existing_numbers(model_id := insert next_version (existing_numbers model_id)))"
    using assms(1)
    by (simp add: fix_row_def m update_version_def log_warning_def set_values_both cong: map_cong)
qed

text \<open>The body of the loop of pass 2 on a custom name that collides on the number only.\<close>

lemma fix_row_number_only_step:
  assumes "str_int number \<noteq> name"
    and "finite (existing_numbers model_id)"
    and "existing_numbers model_id \<noteq> {}"
    and "next_version = Max (existing_numbers model_id) + 1"
  shows "next_version \<notin> existing_numbers model_id \<and>
     fix_row (rid, name, number, model_id, False, True) existing_numbers w =
       Inr (w\<lparr>model_version :=
                 map (\<lambda>r. if v_id r = rid then r\<lparr>v_number := next_version\<rparr> else r)
                   (model_version w),
               executed := executed w @ [UpdateVersion rid None (Some next_version)]\<rparr>,
            existing_numbers(model_id := insert next_version (existing_numbers model_id)))"
proof
  show "next_version \<notin> existing_numbers model_id"
    using assms(2,4) by (rule above_Max_fresh)
next
  have m: "py_max (existing_numbers model_id) = Inr (next_version - 1)"
    using assms(3,4) by (simp add: py_max_nonempty)
  show "fix_row (rid, name, number, model_id, False, True) existing_numbers w =
       Inr (w\<lparr>model_version :=
                 map (\<lambda>r. if v_id r = rid then r\<lparr>v_number := next_version\<rparr> else r)
                   (model_version w),
               executed := executed w @ [UpdateVersion rid None (Some next_version)]\<rparr>,
            existing_numbers(model_id := insert next_version (existing_numbers model_id)))"
    using assms(1)
    by (simp add: fix_row_def m update_version_def set_values_number cong: map_cong)
qed

subsection \<open>The loops compute the lists above\<close>

lemma resolve_rows_effect:
  "resolve_rows t rows existing w =
     set_table t (apply_renames (simple_fixes rows existing) (get_table t w))
       (w\<lparr>executed := executed w @
            map (\<lambda>(rid, old, new). UpdateName t rid new) (simple_fixes rows existing),
          warnings := warnings w @
            map (\<lambda>(rid, old, new). (simple_warning, [table_name t, old, new]))
              (simple_fixes rows existing)\<rparr>)"
proof (induction rows existing arbitrary: w rule: simple_fixes.induct)
  case (1 existing)
  show ?case by (cases t) (simp_all add: apply_renames_def)
next
  case (2 rid name workspace_id rest existing)
  define new_name where "new_name = name @ ''_'' @ take 6 rid"
  show ?case
  proof (cases "name \<in> existing workspace_id")
    case True
    define w2 where
      "w2 = update_name t rid new_name
              (log_warning simple_warning [table_name t, name, new_name] w)"
    have "resolve_rows t ((rid, name, workspace_id) # rest) existing w =
          resolve_rows t rest
            (existing(workspace_id := insert new_name (existing workspace_id))) w2"
      using True by (simp add: Let_def w2_def new_name_def)
    also have "\<dots> = set_table t
        (apply_renames
          (simple_fixes rest (existing(workspace_id := insert new_name (existing workspace_id))))
          (get_table t w2))
        (w2\<lparr>executed := executed w2 @
            map (\<lambda>(rid, old, new). UpdateName t rid new)
              (simple_fixes rest
                (existing(workspace_id := insert new_name (existing workspace_id)))),
          warnings := warnings w2 @
            map (\<lambda>(rid, old, new). (simple_warning, [table_name t, old, new]))
              (simple_fixes rest
                (existing(workspace_id := insert new_name (existing workspace_id))))\<rparr>)"
      unfolding new_name_def by (rule "2.IH"(1) [OF True])
    also have "\<dots> = set_table t
        (apply_renames (simple_fixes ((rid, name, workspace_id) # rest) existing) (get_table t w))
        (w\<lparr>executed := executed w @
            map (\<lambda>(rid, old, new). UpdateName t rid new)
              (simple_fixes ((rid, name, workspace_id) # rest) existing),
          warnings := warnings w @
            map (\<lambda>(rid, old, new). (simple_warning, [table_name t, old, new]))
              (simple_fixes ((rid, name, workspace_id) # rest) existing)\<rparr>)"
      using True
      by (cases t)
         (simp_all add: apply_renames_def update_name_def log_warning_def w2_def new_name_def)
    finally show ?thesis .
  next
    case False
    have "resolve_rows t ((rid, name, workspace_id) # rest) existing w =
          resolve_rows t rest (existing(workspace_id := insert name (existing workspace_id))) w"
      using False by simp
    moreover have "simple_fixes ((rid, name, workspace_id) # rest) existing =
          simple_fixes rest (existing(workspace_id := insert name (existing workspace_id)))"
      using False by simp
    ultimately show ?thesis
      using "2.IH"(2) [OF False, of w] by (simp only:)
  qed
qed

lemma detect_effect:
  "detect rows en eu acc = (acc @ flagged rows en eu, names_after rows en, numbers_after rows eu)"
  by (induction rows en eu arbitrary: acc rule: flagged.induct) (simp_all add: Let_def)

lemma fix_row_effect:
  assumes "eu (fst (snd (snd (snd u)))) \<noteq> {}"
  shows "fix_row u eu w =
     Inr (w\<lparr>model_version :=
               map (set_values_where (fst u) (fst (plan_row u eu))) (model_version w),
             executed := executed w @
               [UpdateVersion (fst u) (fst (fst (plan_row u eu))) (snd (fst (plan_row u eu)))],
             warnings := warnings w @
               version_audit (fst u, fst (snd u), fst (plan_row u eu))\<rparr>,
          snd (plan_row u eu))"
proof -
  obtain rid name number model_id nn nk where u: "u = (rid, name, number, model_id, nn, nk)"
    by (cases u) auto
  have m: "py_max (eu model_id) = Inr (Max (eu model_id))"
    using assms u by (simp add: py_max_nonempty)
  show ?thesis
    by (simp add: u fix_row_def plan_row_def m update_version_def log_warning_def
        version_audit_def Let_def)
qed


lemma numbers_after_mono: "x \<in> eu m \<Longrightarrow> x \<in> numbers_after rows eu m"
proof (induction rows eu rule: numbers_after.induct)
  case (1 eu)
  then show ?case by simp
next
  case (2 rid name number model_id rest eu)
  have "x \<in> (eu(model_id := insert number (eu model_id))) m"
    using "2.prems" by auto
  then have "x \<in> numbers_after rest (eu(model_id := insert number (eu model_id))) m"
    by (rule "2.IH")
  then show ?case by (simp only: numbers_after.simps)
qed

lemma numbers_after_rows:
  "(rid, name, number, m) \<in> set rows \<Longrightarrow> number \<in> numbers_after rows eu m"
proof (induction rows eu rule: numbers_after.induct)
  case (1 eu)
  then show ?case by simp
next
  case (2 rid' name' number' model_id rest eu)
  show ?case
  proof (cases "(rid, name, number, m) = (rid', name', number', model_id)")
    case True
    have "number \<in> (eu(m := insert number (eu m))) m" by simp
    then have "number \<in> numbers_after rest (eu(m := insert number (eu m))) m"
      by (rule numbers_after_mono)
    then show ?thesis using True by (simp only: numbers_after.simps prod.inject)
  next
    case False
    then have "(rid, name, number, m) \<in> set rest" using "2.prems" by auto
    then have "number \<in> numbers_after rest (eu(model_id := insert number' (eu model_id))) m"
      by (rule "2.IH")
    then show ?thesis by (simp only: numbers_after.simps)
  qed
qed

lemma flagged_rows:
  "(rid, name, number, m, a, b) \<in> set (flagged rows en eu) \<Longrightarrow> (rid, name, number, m) \<in> set rows"
proof (induction rows en eu rule: flagged.induct)
  case (1 en eu)
  then show ?case by simp
next
  case (2 rid' name' number' model_id rest en eu)
  have "(rid, name, number, m, a, b) = (rid', name', number', model_id,
            name' \<in> en model_id, number' \<in> eu model_id) \<or>
        (rid, name, number, m, a, b) \<in> set (flagged rest
            (en(model_id := insert name' (en model_id)))
            (eu(model_id := insert number' (eu model_id))))"
    using "2.prems" by (auto split: if_splits)
  then show ?case
  proof
    assume "(rid, name, number, m, a, b) = (rid', name', number', model_id,
            name' \<in> en model_id, number' \<in> eu model_id)"
    then show ?thesis by simp
  next
    assume "(rid, name, number, m, a, b) \<in> set (flagged rest
            (en(model_id := insert name' (en model_id)))
            (eu(model_id := insert number' (eu model_id))))"
    then have "(rid, name, number, m) \<in> set rest" by (rule "2.IH")
    then show ?thesis by simp
  qed
qed

lemma flagged_covered:
  assumes "u \<in> set (flagged rows en eu)"
  shows "numbers_after rows eu' (fst (snd (snd (snd u)))) \<noteq> {}"
proof -
  obtain rid name number m a b where u: "u = (rid, name, number, m, a, b)"
    by (cases u) auto
  have "(rid, name, number, m) \<in> set rows"
    using assms unfolding u by (rule flagged_rows)
  then have "number \<in> numbers_after rows eu' m" by (rule numbers_after_rows)
  then show ?thesis by (auto simp: u)
qed

lemma plan_row_grows: "eu m \<subseteq> snd (plan_row u eu) m"
  by (cases u) (auto simp: plan_row_def Let_def)

lemma fix_all_effect:
  assumes "\<forall>u\<in>set todo. eu (fst (snd (snd (snd u)))) \<noteq> {}"
  shows "fix_all todo eu w =
     Inr (w\<lparr>model_version := apply_values (version_fixes todo eu) (model_version w),
             executed := executed w @
               map (\<lambda>(rid, old, vals). UpdateVersion rid (fst vals) (snd vals))
                 (version_fixes todo eu),
             warnings := warnings w @ concat (map version_audit (version_fixes todo eu))\<rparr>,
          numbers_fixed todo eu)"
  using assms
proof (induction todo arbitrary: eu w)
  case Nil
  show ?case by (simp add: apply_values_def)
next
  case (Cons u rest)
  have ne: "eu (fst (snd (snd (snd u)))) \<noteq> {}" using Cons.prems by simp
  have rest: "\<forall>v\<in>set rest. snd (plan_row u eu) (fst (snd (snd (snd v)))) \<noteq> {}"
    using Cons.prems plan_row_grows [of eu _ u] by fastforce
  show ?case
    by (simp add: fix_row_effect [of eu u, OF ne] Cons.IH [of "snd (plan_row u eu)", OF rest]
        apply_values_def)
qed

lemma resolve_model_versions_effect:
  "resolve_model_versions w =
     Inr (w\<lparr>model_version := apply_values (planned_fixes w) (model_version w),
             executed := executed w @
               map (\<lambda>(rid, old, vals). UpdateVersion rid (fst vals) (snd vals)) (planned_fixes w),
             warnings := warnings w @ concat (map version_audit (planned_fixes w))\<rparr>)"
proof -
  have "\<forall>u\<in>set (flagged (select_versions (model_version w)) (\<lambda>_. {}) (\<lambda>_. {})).
          numbers_after (select_versions (model_version w)) (\<lambda>_. {}) (fst (snd (snd (snd u)))) \<noteq> {}"
    using flagged_covered by blast
  then show ?thesis
    by (simp add: resolve_model_versions_def detect_effect planned_fixes_def fix_all_effect)
qed

subsection \<open>The whole resolution\<close>

lemma resolve_table_effect:
  "resolve_table t w =
     set_table t (apply_renames (table_fixes t w) (get_table t w))
       (w\<lparr>executed := executed w @ simple_updates t w,
          warnings := warnings w @ simple_audit t w\<rparr>)"
  by (simp add: resolve_table_def resolve_rows_effect table_fixes_def simple_updates_def
      simple_audit_def)

lemma resolve_simple_entities_effect:
  "resolve_simple_entities w =
     w\<lparr>pipeline_run := apply_renames (table_fixes PipelineRun w) (pipeline_run w),
       pipeline := apply_renames (table_fixes Pipeline w) (pipeline w),
       model := apply_renames (table_fixes Model w) (model w),
       executed := executed w @ simple_updates PipelineRun w @ simple_updates Pipeline w @
                   simple_updates Model w,
       warnings := warnings w @ simple_audit PipelineRun w @ simple_audit Pipeline w @
                   simple_audit Model w\<rparr>"
  by (simp add: resolve_simple_entities_def resolve_table_effect table_fixes_def
      simple_updates_def simple_audit_def)

lemma resolve_duplicate_entities_effect:
  "resolve_duplicate_entities w =
     Inr (w\<lparr>pipeline_run := apply_renames (table_fixes PipelineRun w) (pipeline_run w),
             pipeline := apply_renames (table_fixes Pipeline w) (pipeline w),
             model := apply_renames (table_fixes Model w) (model w),
             model_version := apply_values (planned_fixes w) (model_version w),
             executed := executed w @ run_updates w,
             warnings := warnings w @ run_audit w\<rparr>)"
  by (simp add: resolve_duplicate_entities_def resolve_model_versions_effect
      resolve_simple_entities_effect planned_fixes_def run_updates_def run_audit_def
      version_updates_def)

lemma run_updates_are_updates: "list_all is_update (run_updates w)"
  by (auto simp: run_updates_def simple_updates_def version_updates_def list_all_iff is_update_def)

text \<open>The definitions a run on a concrete store unfolds.\<close>

lemmas run_simps =
  upgrade_def resolve_duplicate_entities_def resolve_simple_entities_def resolve_table_def
  resolve_model_versions_def select_entities_def select_versions_def add_constraints_def
  create_unique_constraint_def update_name_def update_version_def log_warning_def
  set_name_where_def set_values_where_def fix_row_def py_max_def str_int_def str_nat.simps
  digit_char_def then_do_def table_columns_def key_tuples_def entity_cell_def version_cell_def
  put_constraint_def Let_def

subsection \<open>Totality of the resolution\<close>

text \<open>
  C10. After pass 1, the number of every staged row is in the set \<open>existing_numbers\<close> of
  its own group, so that set is not empty when pass 2 takes its \<open>max\<close>: pass 2 never
  takes the \<open>ValueError\<close> branch and the whole resolution returns a store.
\<close>

theorem max_of_seen_numbers_defined:
  assumes "detect (select_versions (model_version w)) (\<lambda>_. {}) (\<lambda>_. {}) [] =
             (needs_update, existing_names, existing_numbers)"
  shows "(\<forall>(rid, name, number, model_id, needs_new_name, needs_new_number) \<in> set needs_update.
            number \<in> existing_numbers model_id) \<and>
         (\<exists>w' existing_numbers'.
            fix_all needs_update existing_numbers w = Inr (w', existing_numbers')) \<and>
         (\<exists>w'. resolve_model_versions w = Inr w') \<and>
         (\<exists>w'. resolve_duplicate_entities w = Inr w')"
proof -
  let ?rows = "select_versions (model_version w)"
  have nu: "needs_update = flagged ?rows (\<lambda>_. {}) (\<lambda>_. {})"
    and eu: "existing_numbers = numbers_after ?rows (\<lambda>_. {})"
    using assms by (simp_all add: detect_effect)
  have a: "\<forall>(rid, name, number, model_id, needs_new_name, needs_new_number) \<in> set needs_update.
            number \<in> existing_numbers model_id"
    unfolding nu eu using flagged_rows numbers_after_rows by fast
  then have "\<forall>u\<in>set needs_update. existing_numbers (fst (snd (snd (snd u)))) \<noteq> {}"
    by fastforce
  then have b: "\<exists>w' existing_numbers'.
      fix_all needs_update existing_numbers w = Inr (w', existing_numbers')"
    by (simp add: fix_all_effect)
  have c: "\<exists>w'. resolve_model_versions w = Inr w'"
    by (simp add: resolve_model_versions_effect)
  have d: "\<exists>w'. resolve_duplicate_entities w = Inr w'"
    by (simp add: resolve_duplicate_entities_effect)
  show ?thesis using a b c d by blast
qed

theorem max_of_seen_numbers_defined_witness:
  "detect (select_versions (model_version scenario_b)) (\<lambda>_. {}) (\<lambda>_. {}) [] =
     ([(''v2'', ''1'', 1, ''m1'', True, True)],
      (\<lambda>_. {})(''m1'' := {''1''}), (\<lambda>_. {})(''m1'' := {1})) \<and>
   (1::int) \<in> ((\<lambda>_. {})(''m1'' := {1})) ''m1'' \<and>
   resolve_duplicate_entities scenario_b =
     Inr (scenario_b\<lparr>model_version :=
            [\<lparr>v_id = ''v1'', v_name = ''1'', v_number = 1, v_model_id = ''m1''\<rparr>,
             \<lparr>v_id = ''v2'', v_name = ''2'', v_number = 2, v_model_id = ''m1''\<rparr>],
            executed := [UpdateVersion ''v2'' (Some ''2'') (Some 2)],
            warnings := [(version_warning, [''1'', ''2''])]\<rparr>)"
proof -
  have h: "detect (select_versions (model_version scenario_b)) (\<lambda>_. {}) (\<lambda>_. {}) [] =
     ([(''v2'', ''1'', 1, ''m1'', True, True)],
      (\<lambda>_. {})(''m1'' := {''1''}), (\<lambda>_. {})(''m1'' := {1}))"
    by (simp add: scenario_b_def select_versions_def)
  show ?thesis
    using h max_of_seen_numbers_defined [OF h]
    by (simp add: run_simps scenario_b_def)
qed

subsection \<open>The decimal rendering is injective\<close>

lemma digit_char_inj:
  assumes "a < 10" and "b < 10" and "digit_char a = digit_char b"
  shows "a = b"
proof -
  have d: "distinct ''0123456789''" by simp
  have "a < length ''0123456789''" and "b < length ''0123456789''"
    using assms(1,2) by simp_all
  then show ?thesis
    using assms(3) d unfolding digit_char_def by (simp only: nth_eq_iff_index_eq)
qed

lemma digit_char_digit: "d < 10 \<Longrightarrow> digit_char d \<in> set ''0123456789''"
  unfolding digit_char_def by (rule nth_mem) simp

lemma str_nat_digits: "set (str_nat n) \<subseteq> set ''0123456789''"
proof (induction n rule: str_nat.induct)
  case (1 n)
  show ?case
  proof (cases "n < 10")
    case True
    then show ?thesis using digit_char_digit [of n] by (subst str_nat.simps) simp
  next
    case False
    have "n mod 10 < 10" by simp
    then have "digit_char (n mod 10) \<in> set ''0123456789''" by (rule digit_char_digit)
    then show ?thesis using False "1.IH" by (subst str_nat.simps) simp
  qed
qed

lemma str_nat_nonempty: "str_nat n \<noteq> []"
  by (subst str_nat.simps) simp

lemma str_nat_inj: "str_nat a = str_nat b \<Longrightarrow> a = b"
proof (induction a arbitrary: b rule: str_nat.induct)
  case (1 n)
  show ?case
  proof (cases "n < 10")
    case n: True
    show ?thesis
    proof (cases "b < 10")
      case True
      have "[digit_char n] = [digit_char b]"
        using "1.prems" n True by (simp add: str_nat.simps [of n] str_nat.simps [of b])
      then show ?thesis using digit_char_inj [OF n True] by simp
    next
      case False
      have "[digit_char n] = str_nat (b div 10) @ [digit_char (b mod 10)]"
        using "1.prems" n False by (simp add: str_nat.simps [of n] str_nat.simps [of b])
      then show ?thesis using str_nat_nonempty [of "b div 10"] by simp
    qed
  next
    case n: False
    show ?thesis
    proof (cases "b < 10")
      case True
      have "str_nat (n div 10) @ [digit_char (n mod 10)] = [digit_char b]"
        using "1.prems" n True by (simp add: str_nat.simps [of n] str_nat.simps [of b])
      then show ?thesis using str_nat_nonempty [of "n div 10"] by simp
    next
      case False
      have "str_nat (n div 10) @ [digit_char (n mod 10)] =
            str_nat (b div 10) @ [digit_char (b mod 10)]"
        using "1.prems" n False by (simp add: str_nat.simps [of n] str_nat.simps [of b])
      then have q: "str_nat (n div 10) = str_nat (b div 10)"
        and r: "digit_char (n mod 10) = digit_char (b mod 10)" by simp_all
      have "n div 10 = b div 10" using "1.IH" [OF n q] .
      moreover have "n mod 10 = b mod 10"
        using digit_char_inj [OF _ _ r] by simp
      ultimately show ?thesis by (metis div_mult_mod_eq)
    qed
  qed
qed

lemma str_nat_no_minus: "CHR ''-'' \<notin> set (str_nat n)"
  using str_nat_digits [of n] by auto

lemma str_int_inj: "str_int a = str_int b \<Longrightarrow> a = b"
proof -
  assume e: "str_int a = str_int b"
  consider "a < 0" "b < 0" | "a < 0" "\<not> b < 0" | "\<not> a < 0" "b < 0" | "\<not> a < 0" "\<not> b < 0"
    by blast
  then show ?thesis
  proof cases
    case 1
    then have "str_nat (nat (- a)) = str_nat (nat (- b))" using e by (simp add: str_int_def)
    then have "nat (- a) = nat (- b)" by (rule str_nat_inj)
    then show ?thesis using 1 by simp
  next
    case 2
    then have "CHR ''-'' # str_nat (nat (- a)) = str_nat (nat b)" using e by (simp add: str_int_def)
    then have "CHR ''-'' \<in> set (str_nat (nat b))" by (metis list.set_intros(1))
    then show ?thesis using str_nat_no_minus by blast
  next
    case 3
    then have "str_nat (nat a) = CHR ''-'' # str_nat (nat (- b))" using e by (simp add: str_int_def)
    then have "CHR ''-'' \<in> set (str_nat (nat a))" by (metis list.set_intros(1))
    then show ?thesis using str_nat_no_minus by blast
  next
    case 4
    then have "str_nat (nat a) = str_nat (nat b)" using e by (simp add: str_int_def)
    then have "nat a = nat b" by (rule str_nat_inj)
    then show ?thesis using 4 by simp
  qed
qed

subsection \<open>Updates by id on a table with distinct ids\<close>

lemma foldl_map_rows:
  "foldl (\<lambda>T f. map (g f) T) T fs = map (\<lambda>r. foldl (\<lambda>r f. g f r) r fs) T"
  by (induction fs arbitrary: T) (simp_all add: comp_def)

lemma fold_row_miss:
  assumes "\<And>f. f \<in> set fs \<Longrightarrow> g f r = r"
  shows "foldl (\<lambda>r f. g f r) r fs = r"
  using assms by (induction fs) simp_all

lemma somes_set: "f \<in> set (somes opts) \<longleftrightarrow> Some f \<in> set opts"
  by (induction opts rule: somes.induct) auto

lemma apply_by_key:
  fixes key :: "'r \<Rightarrow> 'k" and fkey :: "'f \<Rightarrow> 'k" and g :: "'f \<Rightarrow> 'r \<Rightarrow> 'r"
  assumes miss: "\<And>f r. key r \<noteq> fkey f \<Longrightarrow> g f r = r"
    and keep: "\<And>f r. key (g f r) = key r"
    and "distinct (map key T)"
    and "length opts = length T"
    and "\<And>r f. (r, Some f) \<in> set (zip T opts) \<Longrightarrow> fkey f = key r"
  shows "map (\<lambda>r. foldl (\<lambda>r f. g f r) r (somes opts)) T =
         map2 (\<lambda>r opt. case opt of None \<Rightarrow> r | Some f \<Rightarrow> g f r) T opts"
  using assms(3-)
proof (induction T arbitrary: opts)
  case Nil
  then show ?case by simp
next
  case (Cons r T)
  obtain opt opts' where opts: "opts = opt # opts'" using Cons.prems(2) by (cases opts) auto
  have len: "length opts' = length T" using Cons.prems(2) opts by simp
  have dist: "distinct (map key T)" and fresh: "key r \<notin> key ` set T"
    using Cons.prems(1) by simp_all
  have keys: "\<And>r' f. (r', Some f) \<in> set (zip T opts') \<Longrightarrow> fkey f = key r'"
    using Cons.prems(3) opts by simp
  have IH: "map (\<lambda>r. foldl (\<lambda>r f. g f r) r (somes opts')) T =
         map2 (\<lambda>r opt. case opt of None \<Rightarrow> r | Some f \<Rightarrow> g f r) T opts'"
    using Cons.IH [OF dist len keys] .
  have tail_keys: "\<And>f. f \<in> set (somes opts') \<Longrightarrow> fkey f \<in> key ` set T"
  proof -
    fix f assume "f \<in> set (somes opts')"
    then have "Some f \<in> set opts'" by (simp add: somes_set)
    then obtain i where i: "i < length opts'" "opts' ! i = Some f"
      by (auto simp: in_set_conv_nth)
    then have "(T ! i, Some f) \<in> set (zip T opts')"
      using len by (auto simp: in_set_zip)
    then have "fkey f = key (T ! i)" by (rule keys)
    then show "fkey f \<in> key ` set T" using i(1) len by simp
  qed
  have head_untouched: "\<And>x. key x = key r \<Longrightarrow> foldl (\<lambda>r f. g f r) x (somes opts') = x"
  proof (rule fold_row_miss)
    fix x f assume "key x = key r" "f \<in> set (somes opts')"
    then have "key x \<noteq> fkey f" using tail_keys fresh by metis
    then show "g f x = x" by (rule miss)
  qed
  show ?case
  proof (cases opt)
    case None
    then show ?thesis using IH head_untouched [of r] by (simp add: opts)
  next
    case (Some f)
    have fk: "fkey f = key r" using Cons.prems(3) [of r f] opts Some by simp
    have "\<And>r'. r' \<in> set T \<Longrightarrow> g f r' = r'"
    proof -
      fix r' assume "r' \<in> set T"
      then have "key r' \<noteq> fkey f" using fresh fk by (metis imageI)
      then show "g f r' = r'" by (rule miss)
    qed
    then have tail: "map (\<lambda>r. foldl (\<lambda>r f. g f r) (g f r) (somes opts')) T =
                     map (\<lambda>r. foldl (\<lambda>r f. g f r) r (somes opts')) T"
      by simp
    have "foldl (\<lambda>r f. g f r) (g f r) (somes opts') = g f r"
      using head_untouched [of "g f r"] keep by simp
    then show ?thesis using IH tail by (simp add: opts Some)
  qed
qed

lemma simple_fixes_plan: "simple_fixes rows ex = somes (simple_plan rows ex)"
  by (induction rows arbitrary: ex) auto

lemma simple_plan_length: "length (simple_plan rows ex) = length rows"
  by (induction rows arbitrary: ex) auto

lemma final_pairs_length: "length (final_pairs rows ex) = length rows"
  by (induction rows arbitrary: ex) auto

subsection \<open>The first loop, row by row\<close>

lemma simple_plan_entry:
  "(row, Some f) \<in> set (zip rows (simple_plan rows ex)) \<Longrightarrow>
     f = (fst row, fst (snd row), fst (snd row) @ ''_'' @ take 6 (fst row))"
proof (induction rows arbitrary: ex)
  case Nil
  then show ?case by simp
next
  case (Cons a rest)
  obtain rid name ws where a: "a = (rid, name, ws)" by (cases a) auto
  show ?case
  proof (cases "name \<in> ex ws")
    case True
    then have "(row, Some f) = (a, Some (rid, name, name @ ''_'' @ take 6 rid)) \<or>
               (row, Some f) \<in> set (zip rest (simple_plan rest
                  (ex(ws := insert (name @ ''_'' @ take 6 rid) (ex ws)))))"
      using Cons.prems by (simp add: a)
    then show ?thesis using Cons.IH a by auto
  next
    case False
    then have "(row, Some f) \<in> set (zip rest (simple_plan rest (ex(ws := insert name (ex ws)))))"
      using Cons.prems by (simp add: a)
    then show ?thesis using Cons.IH by blast
  qed
qed

lemma set_name_where_fold:
  "(\<lambda>T (rid, old, new). map (set_name_where rid new) T) =
   (\<lambda>T f. map ((\<lambda>(rid, old, new). set_name_where rid new) f) T)"
  by (simp add: fun_eq_iff split_def)

lemma apply_renames_rows:
  assumes "distinct (map e_id T)"
  shows "apply_renames (simple_fixes (select_entities T) ex) T =
         map2 (\<lambda>r opt. case opt of None \<Rightarrow> r | Some (rid, old, new) \<Rightarrow> r\<lparr>e_name := new\<rparr>)
           T (simple_plan (select_entities T) ex)"
proof -
  let ?g = "\<lambda>(rid, old, new). set_name_where rid new"
  let ?opts = "simple_plan (select_entities T) ex"
  have keys: "\<And>r f. (r, Some f) \<in> set (zip T ?opts) \<Longrightarrow> fst f = e_id r"
  proof -
    fix r f assume "(r, Some f) \<in> set (zip T ?opts)"
    then obtain i where i: "i < length T" "i < length ?opts" "T ! i = r" "?opts ! i = Some f"
      by (auto simp: in_set_zip)
    then have "((e_id r, e_name r, e_workspace_id r), Some f) \<in>
               set (zip (select_entities T) ?opts)"
      by (auto simp: in_set_zip select_entities_def intro!: exI [of _ i])
    then show "fst f = e_id r" using simple_plan_entry by fastforce
  qed
  have "map (\<lambda>r. foldl (\<lambda>r f. ?g f r) r (somes ?opts)) T =
        map2 (\<lambda>r opt. case opt of None \<Rightarrow> r | Some f \<Rightarrow> ?g f r) T ?opts"
  proof (rule apply_by_key [where key = e_id and fkey = fst])
    show "\<And>f r. e_id r \<noteq> fst f \<Longrightarrow> ?g f r = r"
      by (auto simp: set_name_where_def split_def)
    show "\<And>f r. e_id (?g f r) = e_id r"
      by (auto simp: set_name_where_def split_def)
    show "distinct (map e_id T)" by (rule assms)
    show "length ?opts = length T" by (simp add: simple_plan_length select_entities_def)
    show "\<And>r f. (r, Some f) \<in> set (zip T ?opts) \<Longrightarrow> fst f = e_id r" by (rule keys)
  qed
  moreover have "map2 (\<lambda>r opt. case opt of None \<Rightarrow> r | Some f \<Rightarrow> ?g f r) T ?opts =
        map2 (\<lambda>r opt. case opt of None \<Rightarrow> r | Some (rid, old, new) \<Rightarrow> r\<lparr>e_name := new\<rparr>) T ?opts"
  proof (rule map_cong [OF refl])
    fix x assume "x \<in> set (zip T ?opts)"
    obtain r opt where x1: "x = (r, opt)" by (cases x) auto
    have x: "x = (r, opt)" "(r, opt) \<in> set (zip T ?opts)"
      using \<open>x \<in> set (zip T ?opts)\<close> x1 by simp_all
    show "(case x of (r, opt) \<Rightarrow> case opt of None \<Rightarrow> r | Some f \<Rightarrow> ?g f r) =
          (case x of (r, opt) \<Rightarrow> case opt of None \<Rightarrow> r | Some (rid, old, new) \<Rightarrow> r\<lparr>e_name := new\<rparr>)"
    proof (cases opt)
      case None
      then show ?thesis by (simp add: x)
    next
      case (Some f)
      then have "fst f = e_id r" using keys x(2) by blast
      then show ?thesis by (simp add: x Some set_name_where_def split_def)
    qed
  qed
  ultimately show ?thesis
    by (simp add: apply_renames_def set_name_where_fold foldl_map_rows simple_fixes_plan)
qed

lemma final_pairs_of_plan:
  "name_scope_pairs
     (map2 (\<lambda>r opt. case opt of None \<Rightarrow> r | Some (rid, old, new) \<Rightarrow> r\<lparr>e_name := new\<rparr>)
        T (simple_plan (select_entities T) ex)) =
   final_pairs (select_entities T) ex"
  by (induction T arbitrary: ex) (auto simp: select_entities_def name_scope_pairs_def)

lemma renames_fresh_iff:
  "renames_fresh rows ex \<longleftrightarrow>
     distinct (final_pairs rows ex) \<and> (\<forall>(n, s) \<in> set (final_pairs rows ex). n \<notin> ex s)"
proof (induction rows arbitrary: ex)
  case Nil
  then show ?case by simp
next
  case (Cons a rest)
  obtain rid name ws where a: "a = (rid, name, ws)" by (cases a) auto
  define h where "h = (if name \<in> ex ws then name @ ''_'' @ take 6 rid else name)"
  define ex' where "ex' = ex(ws := insert h (ex ws))"
  have fp: "final_pairs (a # rest) ex = (h, ws) # final_pairs rest ex'"
    by (simp add: a h_def ex'_def)
  have rf: "renames_fresh (a # rest) ex \<longleftrightarrow> h \<notin> ex ws \<and> renames_fresh rest ex'"
    by (auto simp: a h_def ex'_def)
  have IH: "renames_fresh rest ex' \<longleftrightarrow>
     distinct (final_pairs rest ex') \<and> (\<forall>(n, s) \<in> set (final_pairs rest ex'). n \<notin> ex' s)"
    by (rule Cons.IH)
  have mem: "\<And>n s. n \<notin> ex' s \<longleftrightarrow> n \<notin> ex s \<and> (n, s) \<noteq> (h, ws)"
    by (auto simp: ex'_def)
  show ?case
    unfolding fp rf IH by (auto simp: mem)
qed

subsection \<open>Uniqueness of simple-entity names\<close>

lemma resolved_table:
  assumes "resolve_duplicate_entities w = Inr w'"
  shows "get_table t w' = apply_renames (table_fixes t w) (get_table t w)"
  using assms by (cases t) (auto simp: resolve_duplicate_entities_effect)

lemma resolved_table_rows:
  assumes "resolve_duplicate_entities w = Inr w'" and "distinct (map e_id (get_table t w))"
  shows "get_table t w' =
     map2 (\<lambda>r opt. case opt of None \<Rightarrow> r | Some (rid, old, new) \<Rightarrow> r\<lparr>e_name := new\<rparr>)
       (get_table t w) (simple_plan (select_entities (get_table t w)) (\<lambda>_. {}))"
  using resolved_table [OF assms(1)] apply_renames_rows [OF assms(2)]
  by (simp add: table_fixes_def)

lemma resolved_table_pairs:
  assumes "resolve_duplicate_entities w = Inr w'" and "distinct (map e_id (get_table t w))"
  shows "name_scope_pairs (get_table t w') =
         final_pairs (select_entities (get_table t w)) (\<lambda>_. {})"
  unfolding resolved_table_rows [OF assms] by (rule final_pairs_of_plan)

text \<open>
  C1, as amended. After the resolution, in a table of simple entities whose ids are
  pairwise distinct, the (name, workspace_id) pairs of the rows are pairwise distinct if
  and only if every synthesized name was new to the seen-set of its scope when the loop
  made it. The loop itself does not check this.
\<close>

theorem simple_names_unique_iff_renames_fresh:
  assumes "resolve_duplicate_entities w = Inr w'"
    and "distinct (map e_id (get_table t w))"
  shows "distinct (name_scope_pairs (get_table t w')) \<longleftrightarrow>
         renames_fresh (select_entities (get_table t w)) (\<lambda>_. {})"
  unfolding resolved_table_pairs [OF assms] by (simp add: renames_fresh_iff)

theorem simple_names_unique_iff_renames_fresh_witness:
  "resolve_duplicate_entities scenario_a =
     Inr (scenario_a\<lparr>pipeline :=
            [\<lparr>e_id = ''a1'', e_name = ''p'', e_workspace_id = ''ws1''\<rparr>,
             \<lparr>e_id = ''b2xxxxyy'', e_name = ''p_b2xxxx'', e_workspace_id = ''ws1''\<rparr>],
          executed := [UpdateName Pipeline ''b2xxxxyy'' ''p_b2xxxx''],
          warnings := [(simple_warning, [''pipeline'', ''p'', ''p_b2xxxx''])]\<rparr>) \<and>
   distinct (map e_id (get_table Pipeline scenario_a)) \<and>
   distinct (name_scope_pairs
     [\<lparr>e_id = ''a1'', e_name = ''p'', e_workspace_id = ''ws1''\<rparr>,
      \<lparr>e_id = ''b2xxxxyy'', e_name = ''p_b2xxxx'', e_workspace_id = ''ws1''\<rparr>]) \<and>
   renames_fresh (select_entities (get_table Pipeline scenario_a)) (\<lambda>_. {})"
proof -
  have r: "resolve_duplicate_entities scenario_a =
     Inr (scenario_a\<lparr>pipeline :=
            [\<lparr>e_id = ''a1'', e_name = ''p'', e_workspace_id = ''ws1''\<rparr>,
             \<lparr>e_id = ''b2xxxxyy'', e_name = ''p_b2xxxx'', e_workspace_id = ''ws1''\<rparr>],
          executed := [UpdateName Pipeline ''b2xxxxyy'' ''p_b2xxxx''],
          warnings := [(simple_warning, [''pipeline'', ''p'', ''p_b2xxxx''])]\<rparr>)"
    by (simp add: run_simps scenario_a_def)
  have d: "distinct (map e_id (get_table Pipeline scenario_a))"
    by (simp add: scenario_a_def)
  show ?thesis
    using r d simple_names_unique_iff_renames_fresh [OF r d]
    by (simp add: scenario_a_def select_entities_def name_scope_pairs_def)
qed

text \<open>
  C1 as stated fails. The three pipelines of \<open>suffix_clash\<close> have distinct ids; the third
  is renamed to \<open>p_333333\<close>, the name the first one has, and both are in workspace
  \<open>ws1\<close>.
\<close>

theorem simple_names_unique_counterexample:
  "distinct (map e_id (pipeline suffix_clash)) \<and>
   resolve_duplicate_entities suffix_clash =
     Inr (suffix_clash\<lparr>pipeline :=
            [\<lparr>e_id = ''11111111'', e_name = ''p_333333'', e_workspace_id = ''ws1''\<rparr>,
             \<lparr>e_id = ''22222222'', e_name = ''p'', e_workspace_id = ''ws1''\<rparr>,
             \<lparr>e_id = ''33333333'', e_name = ''p_333333'', e_workspace_id = ''ws1''\<rparr>],
          executed := [UpdateName Pipeline ''33333333'' ''p_333333''],
          warnings := [(simple_warning, [''pipeline'', ''p'', ''p_333333''])]\<rparr>) \<and>
   \<not> distinct (name_scope_pairs
     [\<lparr>e_id = ''11111111'', e_name = ''p_333333'', e_workspace_id = ''ws1''\<rparr>,
      \<lparr>e_id = ''22222222'', e_name = ''p'', e_workspace_id = ''ws1''\<rparr>,
      \<lparr>e_id = ''33333333'', e_name = ''p_333333'', e_workspace_id = ''ws1''\<rparr>])"
  by (simp add: run_simps suffix_clash_def name_scope_pairs_def)

subsection \<open>First seen wins\<close>

lemma seen_after_pairs:
  "seen_after rows ex s = ex s \<union> {n. (n, s) \<in> set (final_pairs rows ex)}"
proof (induction rows arbitrary: ex)
  case Nil
  then show ?case by simp
next
  case (Cons a rest)
  obtain rid name ws where a: "a = (rid, name, ws)" by (cases a) auto
  define h where "h = (if name \<in> ex ws then name @ ''_'' @ take 6 rid else name)"
  define ex' where "ex' = ex(ws := insert h (ex ws))"
  have "seen_after (a # rest) ex s = seen_after rest ex' s"
    by (simp add: a h_def ex'_def)
  also have "\<dots> = ex' s \<union> {n. (n, s) \<in> set (final_pairs rest ex')}"
    by (rule Cons.IH)
  also have "\<dots> = ex s \<union> {n. (n, s) \<in> set ((h, ws) # final_pairs rest ex')}"
    by (auto simp: ex'_def)
  also have "(h, ws) # final_pairs rest ex' = final_pairs (a # rest) ex"
    by (simp add: a h_def ex'_def)
  finally show ?case .
qed

lemma simple_plan_append:
  "simple_plan (A @ B) ex = simple_plan A ex @ simple_plan B (seen_after A ex)"
  by (induction A arbitrary: ex) auto

lemma final_pairs_append:
  "final_pairs (A @ B) ex = final_pairs A ex @ final_pairs B (seen_after A ex)"
  by (induction A arbitrary: ex) auto

lemma final_pairs_take: "final_pairs (take i rows) ex = take i (final_pairs rows ex)"
proof -
  have "final_pairs rows ex =
        final_pairs (take i rows) ex @ final_pairs (drop i rows) (seen_after (take i rows) ex)"
    using final_pairs_append [of "take i rows" "drop i rows" ex] by simp
  then have "take i (final_pairs rows ex) =
        take i (final_pairs (take i rows) ex @
                final_pairs (drop i rows) (seen_after (take i rows) ex))"
    by simp
  also have "\<dots> = final_pairs (take i rows) ex"
    by (cases "i \<le> length rows") (simp_all add: final_pairs_length)
  finally show ?thesis by simp
qed

lemma simple_plan_nth:
  assumes "i < length rows" and "rows ! i = (rid, name, ws)"
  shows "simple_plan rows ex ! i =
         (if name \<in> seen_after (take i rows) ex ws
          then Some (rid, name, name @ ''_'' @ take 6 rid) else None)"
proof -
  have split: "rows = take i rows @ (rid, name, ws) # drop (Suc i) rows"
    using assms by (metis id_take_nth_drop)
  have "simple_plan rows ex =
        simple_plan (take i rows) ex @
        simple_plan ((rid, name, ws) # drop (Suc i) rows) (seen_after (take i rows) ex)"
    using simple_plan_append [of "take i rows" "(rid, name, ws) # drop (Suc i) rows" ex] split
    by simp
  moreover have "length (simple_plan (take i rows) ex) = i"
    using assms(1) by (simp add: simple_plan_length)
  ultimately have "simple_plan rows ex ! i =
        simple_plan ((rid, name, ws) # drop (Suc i) rows) (seen_after (take i rows) ex) ! 0"
    by (simp add: nth_append)
  then show ?thesis by simp
qed

lemma seen_before:
  assumes "i \<le> length rows"
  shows "name \<in> seen_after (take i rows) (\<lambda>_. {}) ws \<longleftrightarrow>
         (\<exists>j<i. final_pairs rows (\<lambda>_. {}) ! j = (name, ws))"
proof -
  have "name \<in> seen_after (take i rows) (\<lambda>_. {}) ws \<longleftrightarrow>
        (name, ws) \<in> set (take i (final_pairs rows (\<lambda>_. {})))"
    by (simp add: seen_after_pairs final_pairs_take)
  also have "\<dots> \<longleftrightarrow> (\<exists>j<i. final_pairs rows (\<lambda>_. {}) ! j = (name, ws))"
    using assms by (auto simp: in_set_conv_nth final_pairs_length)
  finally show ?thesis .
qed

lemma resolved_row:
  assumes "resolve_duplicate_entities w = Inr w'"
    and "distinct (map e_id (get_table t w))"
    and "i < length (get_table t w)"
  shows "get_table t w' ! i =
     (if (\<exists>j<i. e_workspace_id (get_table t w ! j) = e_workspace_id (get_table t w ! i) \<and>
                 e_name (get_table t w' ! j) = e_name (get_table t w ! i))
      then (get_table t w ! i)\<lparr>e_name :=
             e_name (get_table t w ! i) @ ''_'' @ take 6 (e_id (get_table t w ! i))\<rparr>
      else get_table t w ! i)"
proof -
  define T where "T = get_table t w"
  define T' where "T' = get_table t w'"
  define rows where "rows = select_entities T"
  define plan where "plan = simple_plan rows (\<lambda>_. {})"
  let ?f = "\<lambda>r opt. case opt of None \<Rightarrow> r | Some (rid, old, new) \<Rightarrow> r\<lparr>e_name := new\<rparr>"
  have T': "T' = map2 ?f T plan"
    unfolding T'_def T_def plan_def rows_def by (rule resolved_table_rows [OF assms(1,2)])
  have len: "length plan = length T" "length rows = length T"
    by (simp_all add: plan_def rows_def simple_plan_length select_entities_def)
  have row: "\<And>k. k < length T \<Longrightarrow> T' ! k = ?f (T ! k) (plan ! k)"
    using len by (simp add: T')
  have scope: "\<And>k. k < length T \<Longrightarrow> e_workspace_id (T' ! k) = e_workspace_id (T ! k)"
    by (simp add: row split: option.splits)
  have pairs: "final_pairs rows (\<lambda>_. {}) = name_scope_pairs T'"
    unfolding rows_def T'_def T_def by (rule resolved_table_pairs [OF assms(1,2), symmetric])
  have pair: "\<And>k. k < length T \<Longrightarrow>
      final_pairs rows (\<lambda>_. {}) ! k = (e_name (T' ! k), e_workspace_id (T ! k))"
    using scope len by (simp add: pairs name_scope_pairs_def T')
  have i: "i < length T" using assms(3) by (simp add: T_def)
  have ri: "rows ! i = (e_id (T ! i), e_name (T ! i), e_workspace_id (T ! i))"
    using i by (simp add: rows_def select_entities_def)
  have "e_name (T ! i) \<in> seen_after (take i rows) (\<lambda>_. {}) (e_workspace_id (T ! i)) \<longleftrightarrow>
        (\<exists>j<i. final_pairs rows (\<lambda>_. {}) ! j = (e_name (T ! i), e_workspace_id (T ! i)))"
    using i len by (intro seen_before) simp
  also have "\<dots> \<longleftrightarrow> (\<exists>j<i. e_workspace_id (T ! j) = e_workspace_id (T ! i) \<and>
                         e_name (T' ! j) = e_name (T ! i))"
    using i pair by (metis (no_types, lifting) Pair_inject less_trans)
  finally have seen: "e_name (T ! i) \<in> seen_after (take i rows) (\<lambda>_. {}) (e_workspace_id (T ! i)) \<longleftrightarrow>
        (\<exists>j<i. e_workspace_id (T ! j) = e_workspace_id (T ! i) \<and> e_name (T' ! j) = e_name (T ! i))" .
  have "plan ! i =
        (if e_name (T ! i) \<in> seen_after (take i rows) (\<lambda>_. {}) (e_workspace_id (T ! i))
         then Some (e_id (T ! i), e_name (T ! i), e_name (T ! i) @ ''_'' @ take 6 (e_id (T ! i)))
         else None)"
    unfolding plan_def using i len ri by (intro simple_plan_nth) simp_all
  then have "T' ! i =
     (if (\<exists>j<i. e_workspace_id (T ! j) = e_workspace_id (T ! i) \<and> e_name (T' ! j) = e_name (T ! i))
      then (T ! i)\<lparr>e_name := e_name (T ! i) @ ''_'' @ take 6 (e_id (T ! i))\<rparr>
      else T ! i)"
    using row [OF i] seen by simp
  then show ?thesis by (simp only: T_def T'_def)
qed

lemma renamed_row_differs:
  "(r::entity_row)\<lparr>e_name := e_name r @ ''_'' @ take 6 (e_id r)\<rparr> \<noteq> r"
proof
  assume "r\<lparr>e_name := e_name r @ ''_'' @ take 6 (e_id r)\<rparr> = r"
  then have "e_name (r\<lparr>e_name := e_name r @ ''_'' @ take 6 (e_id r)\<rparr>) = e_name r" by simp
  then show False by simp
qed

text \<open>
  C3, as amended. In a table of simple entities whose ids are pairwise distinct, a row is
  altered exactly when an earlier row of its scope ends the resolution with the name this
  row was read with, be that name kept or synthesized; an altered row gets its name
  followed by an underscore and the first six characters of its id. Hence the earliest row
  carrying a name in a scope is left as it is unless that name is the synthesized name of
  an earlier row of the scope.
\<close>

theorem first_seen_wins_unless_name_synthesized:
  assumes "resolve_duplicate_entities w = Inr w'"
    and "distinct (map e_id (get_table t w))"
    and "i < length (get_table t w)"
  shows "(get_table t w' ! i \<noteq> get_table t w ! i \<longleftrightarrow>
           (\<exists>j<i. e_workspace_id (get_table t w ! j) = e_workspace_id (get_table t w ! i) \<and>
                  e_name (get_table t w' ! j) = e_name (get_table t w ! i))) \<and>
         (get_table t w' ! i \<noteq> get_table t w ! i \<longrightarrow>
            get_table t w' ! i = (get_table t w ! i)\<lparr>e_name :=
              e_name (get_table t w ! i) @ ''_'' @ take 6 (e_id (get_table t w ! i))\<rparr>) \<and>
         ((\<forall>j<i. e_workspace_id (get_table t w ! j) = e_workspace_id (get_table t w ! i) \<longrightarrow>
               e_name (get_table t w ! j) \<noteq> e_name (get_table t w ! i) \<and>
               e_name (get_table t w ! j) @ ''_'' @ take 6 (e_id (get_table t w ! j)) \<noteq>
                 e_name (get_table t w ! i)) \<longrightarrow>
          get_table t w' ! i = get_table t w ! i)"
proof -
  define T where "T = get_table t w"
  define T' where "T' = get_table t w'"
  define seen where "seen k \<longleftrightarrow> (\<exists>j<k. e_workspace_id (T ! j) = e_workspace_id (T ! k) \<and>
                 e_name (T' ! j) = e_name (T ! k))" for k
  have row: "\<And>k. k < length T \<Longrightarrow>
      T' ! k = (if seen k then (T ! k)\<lparr>e_name := e_name (T ! k) @ ''_'' @ take 6 (e_id (T ! k))\<rparr>
                else T ! k)"
    unfolding T_def T'_def seen_def using resolved_row [OF assms(1,2)] by simp
  have i: "i < length T" using assms(3) by (simp add: T_def)
  have a: "T' ! i \<noteq> T ! i \<longleftrightarrow> seen i"
    using row [OF i] renamed_row_differs [of "T ! i"] by auto
  have b: "T' ! i \<noteq> T ! i \<longrightarrow>
           T' ! i = (T ! i)\<lparr>e_name := e_name (T ! i) @ ''_'' @ take 6 (e_id (T ! i))\<rparr>"
    using row [OF i] by auto
  have c: "(\<forall>j<i. e_workspace_id (T ! j) = e_workspace_id (T ! i) \<longrightarrow>
               e_name (T ! j) \<noteq> e_name (T ! i) \<and>
               e_name (T ! j) @ ''_'' @ take 6 (e_id (T ! j)) \<noteq> e_name (T ! i)) \<longrightarrow>
           T' ! i = T ! i"
  proof
    assume first: "\<forall>j<i. e_workspace_id (T ! j) = e_workspace_id (T ! i) \<longrightarrow>
               e_name (T ! j) \<noteq> e_name (T ! i) \<and>
               e_name (T ! j) @ ''_'' @ take 6 (e_id (T ! j)) \<noteq> e_name (T ! i)"
    have "\<not> seen i"
    proof
      assume "seen i"
      then obtain j where j: "j < i" "e_workspace_id (T ! j) = e_workspace_id (T ! i)"
        "e_name (T' ! j) = e_name (T ! i)" unfolding seen_def by blast
      have "j < length T" using j(1) i by simp
      then have "e_name (T' ! j) = e_name (T ! j) \<or>
                 e_name (T' ! j) = e_name (T ! j) @ ''_'' @ take 6 (e_id (T ! j))"
        using row [of j] by (cases "seen j") simp_all
      then show False using first j by auto
    qed
    then show "T' ! i = T ! i" using row [OF i] by simp
  qed
  show ?thesis
    using a b c unfolding seen_def T_def T'_def by blast
qed


theorem first_seen_wins_unless_name_synthesized_witness:
  "resolve_duplicate_entities scenario_a =
     Inr (scenario_a\<lparr>pipeline :=
            [\<lparr>e_id = ''a1'', e_name = ''p'', e_workspace_id = ''ws1''\<rparr>,
             \<lparr>e_id = ''b2xxxxyy'', e_name = ''p_b2xxxx'', e_workspace_id = ''ws1''\<rparr>],
          executed := [UpdateName Pipeline ''b2xxxxyy'' ''p_b2xxxx''],
          warnings := [(simple_warning, [''pipeline'', ''p'', ''p_b2xxxx''])]\<rparr>) \<and>
   distinct (map e_id (get_table Pipeline scenario_a)) \<and>
   1 < length (get_table Pipeline scenario_a) \<and>
   e_name ([\<lparr>e_id = ''a1'', e_name = ''p'', e_workspace_id = ''ws1''\<rparr>,
    \<lparr>e_id = ''b2xxxxyy'', e_name = ''p_b2xxxx'', e_workspace_id = ''ws1''\<rparr>] ! 0) =
     e_name (get_table Pipeline scenario_a ! 1) \<and>
   [\<lparr>e_id = ''a1'', e_name = ''p'', e_workspace_id = ''ws1''\<rparr>,
    \<lparr>e_id = ''b2xxxxyy'', e_name = ''p_b2xxxx'', e_workspace_id = ''ws1''\<rparr>] ! 1 \<noteq>
     get_table Pipeline scenario_a ! 1"
proof -
  have r: "resolve_duplicate_entities scenario_a =
     Inr (scenario_a\<lparr>pipeline :=
            [\<lparr>e_id = ''a1'', e_name = ''p'', e_workspace_id = ''ws1''\<rparr>,
             \<lparr>e_id = ''b2xxxxyy'', e_name = ''p_b2xxxx'', e_workspace_id = ''ws1''\<rparr>],
          executed := [UpdateName Pipeline ''b2xxxxyy'' ''p_b2xxxx''],
          warnings := [(simple_warning, [''pipeline'', ''p'', ''p_b2xxxx''])]\<rparr>)"
    by (simp add: run_simps scenario_a_def)
  have d: "distinct (map e_id (get_table Pipeline scenario_a))"
    by (simp add: scenario_a_def)
  have i: "1 < length (get_table Pipeline scenario_a)"
    by (simp add: scenario_a_def)
  show ?thesis
    using r d i first_seen_wins_unless_name_synthesized [OF r d i]
    by (simp add: scenario_a_def)
qed

text \<open>
  C3 as stated fails. In \<open>early_clash\<close> the third pipeline is the first row of workspace
  \<open>ws1\<close> read with the name \<open>p_bbbbbb\<close>, and it is renamed all the same: the second
  row was renamed to \<open>p_bbbbbb\<close> before it.
\<close>

theorem first_seen_wins_counterexample:
  "distinct (map e_id (pipeline early_clash)) \<and>
   e_name (pipeline early_clash ! 2) = ''p_bbbbbb'' \<and>
   ''p_bbbbbb'' \<notin> set (map e_name (take 2 (pipeline early_clash))) \<and>
   resolve_duplicate_entities early_clash =
     Inr (early_clash\<lparr>pipeline :=
            [\<lparr>e_id = ''aaaaaaaa'', e_name = ''p'', e_workspace_id = ''ws1''\<rparr>,
             \<lparr>e_id = ''bbbbbb11'', e_name = ''p_bbbbbb'', e_workspace_id = ''ws1''\<rparr>,
             \<lparr>e_id = ''cccccccc'', e_name = ''p_bbbbbb_cccccc'', e_workspace_id = ''ws1''\<rparr>],
          executed := [UpdateName Pipeline ''bbbbbb11'' ''p_bbbbbb'',
                       UpdateName Pipeline ''cccccccc'' ''p_bbbbbb_cccccc''],
          warnings := [(simple_warning, [''pipeline'', ''p'', ''p_bbbbbb'']),
                       (simple_warning, [''pipeline'', ''p_bbbbbb'', ''p_bbbbbb_cccccc''])]\<rparr>)"
  by (simp add: run_simps early_clash_def)

subsection \<open>Running the resolution twice\<close>

lemma simple_fixes_empty_iff:
  "simple_fixes rows ex = [] \<longleftrightarrow>
     (\<forall>row \<in> set rows. fst (snd row) \<notin> ex (snd (snd row))) \<and>
     distinct (map (\<lambda>row. (fst (snd row), snd (snd row))) rows)"
proof (induction rows arbitrary: ex)
  case Nil
  then show ?case by simp
next
  case (Cons a rest)
  obtain rid name ws where a: "a = (rid, name, ws)" by (cases a) auto
  define ex' where "ex' = ex(ws := insert name (ex ws))"
  have step: "simple_fixes (a # rest) ex = [] \<longleftrightarrow> name \<notin> ex ws \<and> simple_fixes rest ex' = []"
    by (simp add: a ex'_def)
  have IH: "simple_fixes rest ex' = [] \<longleftrightarrow>
     (\<forall>row \<in> set rest. fst (snd row) \<notin> ex' (snd (snd row))) \<and>
     distinct (map (\<lambda>row. (fst (snd row), snd (snd row))) rest)"
    by (rule Cons.IH)
  have mem: "\<And>n s. n \<notin> ex' s \<longleftrightarrow> n \<notin> ex s \<and> (n, s) \<noteq> (name, ws)"
    by (auto simp: ex'_def)
  show ?case
    unfolding step IH by (force simp: a mem)
qed

lemma table_fixes_empty_iff:
  "table_fixes t w = [] \<longleftrightarrow> distinct (name_scope_pairs (get_table t w))"
  by (simp add: table_fixes_def simple_fixes_empty_iff select_entities_def name_scope_pairs_def
      comp_def)

lemma flagged_empty_iff:
  "flagged rows en eu = [] \<longleftrightarrow>
     (\<forall>row \<in> set rows. fst (snd row) \<notin> en (snd (snd (snd row))) \<and>
                        fst (snd (snd row)) \<notin> eu (snd (snd (snd row)))) \<and>
     distinct (map (\<lambda>row. (fst (snd row), snd (snd (snd row)))) rows) \<and>
     distinct (map (\<lambda>row. (fst (snd (snd row)), snd (snd (snd row)))) rows)"
proof (induction rows arbitrary: en eu)
  case Nil
  then show ?case by simp
next
  case (Cons a rest)
  obtain rid name number model_id where a: "a = (rid, name, number, model_id)"
    by (cases a) auto
  define en' where "en' = en(model_id := insert name (en model_id))"
  define eu' where "eu' = eu(model_id := insert number (eu model_id))"
  have step: "flagged (a # rest) en eu = [] \<longleftrightarrow>
      name \<notin> en model_id \<and> number \<notin> eu model_id \<and> flagged rest en' eu' = []"
    by (auto simp: a en'_def eu'_def)
  have IH: "flagged rest en' eu' = [] \<longleftrightarrow>
     (\<forall>row \<in> set rest. fst (snd row) \<notin> en' (snd (snd (snd row))) \<and>
                        fst (snd (snd row)) \<notin> eu' (snd (snd (snd row)))) \<and>
     distinct (map (\<lambda>row. (fst (snd row), snd (snd (snd row)))) rest) \<and>
     distinct (map (\<lambda>row. (fst (snd (snd row)), snd (snd (snd row)))) rest)"
    by (rule Cons.IH)
  have mem: "\<And>n m. n \<notin> en' m \<longleftrightarrow> n \<notin> en m \<and> (n, m) \<noteq> (name, model_id)"
    "\<And>k m. k \<notin> eu' m \<longleftrightarrow> k \<notin> eu m \<and> (k, m) \<noteq> (number, model_id)"
    by (auto simp: en'_def eu'_def)
  show ?case
    unfolding step IH by (force simp: a mem)
qed

lemma version_fixes_empty_iff: "version_fixes todo eu = [] \<longleftrightarrow> todo = []"
  by (cases todo) simp_all

lemma planned_fixes_empty_iff:
  "planned_fixes w = [] \<longleftrightarrow>
     distinct (name_group_pairs (model_version w)) \<and>
     distinct (number_group_pairs (model_version w))"
  by (simp add: planned_fixes_def version_fixes_empty_iff flagged_empty_iff select_versions_def
      name_group_pairs_def number_group_pairs_def comp_def)

lemma run_updates_empty_iff: "run_updates w = [] \<longleftrightarrow> duplicate_free w"
  by (simp add: run_updates_def simple_updates_def version_updates_def duplicate_free_def
      table_fixes_empty_iff planned_fixes_empty_iff)

lemma duplicate_free_fixpoint:
  assumes "duplicate_free w"
  shows "resolve_duplicate_entities w = Inr w"
proof -
  have s: "table_fixes PipelineRun w = []" "table_fixes Pipeline w = []" "table_fixes Model w = []"
    using assms by (simp_all add: table_fixes_empty_iff duplicate_free_def)
  have v: "planned_fixes w = []"
    using assms by (simp add: planned_fixes_empty_iff duplicate_free_def)
  show ?thesis
    by (simp add: resolve_duplicate_entities_effect s v apply_renames_def apply_values_def
        run_updates_def run_audit_def simple_updates_def simple_audit_def version_updates_def)
qed

text \<open>
  C4, as amended. A second run of the resolution, on the store the first run produced,
  executes no update if and only if the first run left no duplicate (name, workspace_id),
  (name, model_id) or (number, model_id) pair; the second run then returns the store
  unchanged.
\<close>

theorem second_run_updates_nothing_iff_duplicate_free:
  assumes "resolve_duplicate_entities w = Inr w1"
    and "resolve_duplicate_entities w1 = Inr w2"
  shows "(executed w2 = executed w1 \<longleftrightarrow> duplicate_free w1) \<and>
         (duplicate_free w1 \<longrightarrow> w2 = w1)"
proof -
  have "executed w2 = executed w1 @ run_updates w1"
    using assms(2) by (auto simp: resolve_duplicate_entities_effect)
  then have a: "executed w2 = executed w1 \<longleftrightarrow> duplicate_free w1"
    by (simp add: run_updates_empty_iff)
  have b: "duplicate_free w1 \<longrightarrow> w2 = w1"
    using assms(2) duplicate_free_fixpoint [of w1] by auto
  show ?thesis using a b by blast
qed

theorem second_run_updates_nothing_iff_duplicate_free_witness:
  "resolve_duplicate_entities scenario_a =
     Inr (scenario_a\<lparr>pipeline :=
            [\<lparr>e_id = ''a1'', e_name = ''p'', e_workspace_id = ''ws1''\<rparr>,
             \<lparr>e_id = ''b2xxxxyy'', e_name = ''p_b2xxxx'', e_workspace_id = ''ws1''\<rparr>],
          executed := [UpdateName Pipeline ''b2xxxxyy'' ''p_b2xxxx''],
          warnings := [(simple_warning, [''pipeline'', ''p'', ''p_b2xxxx''])]\<rparr>) \<and>
   resolve_duplicate_entities
     (scenario_a\<lparr>pipeline :=
            [\<lparr>e_id = ''a1'', e_name = ''p'', e_workspace_id = ''ws1''\<rparr>,
             \<lparr>e_id = ''b2xxxxyy'', e_name = ''p_b2xxxx'', e_workspace_id = ''ws1''\<rparr>],
          executed := [UpdateName Pipeline ''b2xxxxyy'' ''p_b2xxxx''],
          warnings := [(simple_warning, [''pipeline'', ''p'', ''p_b2xxxx''])]\<rparr>) =
     Inr (scenario_a\<lparr>pipeline :=
            [\<lparr>e_id = ''a1'', e_name = ''p'', e_workspace_id = ''ws1''\<rparr>,
             \<lparr>e_id = ''b2xxxxyy'', e_name = ''p_b2xxxx'', e_workspace_id = ''ws1''\<rparr>],
          executed := [UpdateName Pipeline ''b2xxxxyy'' ''p_b2xxxx''],
          warnings := [(simple_warning, [''pipeline'', ''p'', ''p_b2xxxx''])]\<rparr>) \<and>
   duplicate_free
     (scenario_a\<lparr>pipeline :=
            [\<lparr>e_id = ''a1'', e_name = ''p'', e_workspace_id = ''ws1''\<rparr>,
             \<lparr>e_id = ''b2xxxxyy'', e_name = ''p_b2xxxx'', e_workspace_id = ''ws1''\<rparr>],
          executed := [UpdateName Pipeline ''b2xxxxyy'' ''p_b2xxxx''],
          warnings := [(simple_warning, [''pipeline'', ''p'', ''p_b2xxxx''])]\<rparr>)"
proof -
  define w1 where "w1 = scenario_a\<lparr>pipeline :=
            [\<lparr>e_id = ''a1'', e_name = ''p'', e_workspace_id = ''ws1''\<rparr>,
             \<lparr>e_id = ''b2xxxxyy'', e_name = ''p_b2xxxx'', e_workspace_id = ''ws1''\<rparr>],
          executed := [UpdateName Pipeline ''b2xxxxyy'' ''p_b2xxxx''],
          warnings := [(simple_warning, [''pipeline'', ''p'', ''p_b2xxxx''])]\<rparr>"
  have r1: "resolve_duplicate_entities scenario_a = Inr w1"
    by (simp add: run_simps scenario_a_def w1_def)
  have r2: "resolve_duplicate_entities w1 = Inr w1"
    by (simp add: run_simps scenario_a_def w1_def)
  show ?thesis
    using r1 r2 second_run_updates_nothing_iff_duplicate_free [OF r1 r2]
    unfolding w1_def by simp
qed

text \<open>
  C4 as stated fails. The first run on \<open>suffix_clash\<close> leaves two pipelines named
  \<open>p_333333\<close> in workspace \<open>ws1\<close>; the second run renames the later one and so executes
  one more update.
\<close>

theorem second_run_counterexample:
  "resolve_duplicate_entities suffix_clash =
     Inr (suffix_clash\<lparr>pipeline :=
            [\<lparr>e_id = ''11111111'', e_name = ''p_333333'', e_workspace_id = ''ws1''\<rparr>,
             \<lparr>e_id = ''22222222'', e_name = ''p'', e_workspace_id = ''ws1''\<rparr>,
             \<lparr>e_id = ''33333333'', e_name = ''p_333333'', e_workspace_id = ''ws1''\<rparr>],
          executed := [UpdateName Pipeline ''33333333'' ''p_333333''],
          warnings := [(simple_warning, [''pipeline'', ''p'', ''p_333333''])]\<rparr>) \<and>
   resolve_duplicate_entities
     (suffix_clash\<lparr>pipeline :=
            [\<lparr>e_id = ''11111111'', e_name = ''p_333333'', e_workspace_id = ''ws1''\<rparr>,
             \<lparr>e_id = ''22222222'', e_name = ''p'', e_workspace_id = ''ws1''\<rparr>,
             \<lparr>e_id = ''33333333'', e_name = ''p_333333'', e_workspace_id = ''ws1''\<rparr>],
          executed := [UpdateName Pipeline ''33333333'' ''p_333333''],
          warnings := [(simple_warning, [''pipeline'', ''p'', ''p_333333''])]\<rparr>) =
     Inr (suffix_clash\<lparr>pipeline :=
            [\<lparr>e_id = ''11111111'', e_name = ''p_333333'', e_workspace_id = ''ws1''\<rparr>,
             \<lparr>e_id = ''22222222'', e_name = ''p'', e_workspace_id = ''ws1''\<rparr>,
             \<lparr>e_id = ''33333333'', e_name = ''p_333333_333333'', e_workspace_id = ''ws1''\<rparr>],
          executed := [UpdateName Pipeline ''33333333'' ''p_333333'',
                       UpdateName Pipeline ''33333333'' ''p_333333_333333''],
          warnings := [(simple_warning, [''pipeline'', ''p'', ''p_333333'']),
                       (simple_warning, [''pipeline'', ''p_333333'', ''p_333333_333333''])]\<rparr>) \<and>
   length [UpdateName Pipeline ''33333333'' ''p_333333'',
           UpdateName Pipeline ''33333333'' ''p_333333_333333''] =
   length [UpdateName Pipeline ''33333333'' ''p_333333''] + 1"
  by (simp add: run_simps suffix_clash_def)

subsection \<open>The two passes, row by row\<close>

lemma version_fixes_plan: "version_fixes (flagged rows en eu) EU = somes (version_plan rows en eu EU)"
  by (induction rows arbitrary: en eu EU) auto

lemma version_plan_length: "length (version_plan rows en eu EU) = length rows"
  by (induction rows arbitrary: en eu EU) auto

lemma version_plan_entry:
  "(row, Some f) \<in> set (zip rows (version_plan rows en eu EU)) \<Longrightarrow>
     fst f = fst row \<and> fst (snd f) = fst (snd row)"
proof (induction rows arbitrary: en eu EU)
  case Nil
  then show ?case by simp
next
  case (Cons a rest)
  obtain rid name number m where a: "a = (rid, name, number, m)" by (cases a) auto
  from Cons.prems have "(row = a \<and> fst f = rid \<and> fst (snd f) = name) \<or>
      (\<exists>en' eu' EU'. (row, Some f) \<in> set (zip rest (version_plan rest en' eu' EU')))"
    by (auto simp: a split: if_splits)
  then show ?case using Cons.IH a by auto
qed

lemma version_plan_cases:
  fixes rid name number m rest en eu EU
  defines "en' \<equiv> en(m := insert name (en m))"
    and "eu' \<equiv> eu(m := insert number (eu m))"
    and "k \<equiv> Max (EU m) + 1"
  obtains
    (kept) "name \<notin> en m" "number \<notin> eu m"
      "version_plan ((rid, name, number, m) # rest) en eu EU = None # version_plan rest en' eu' EU"
  | (numeric) "name = str_int number"
      "version_plan ((rid, name, number, m) # rest) en eu EU =
         Some (rid, name, Some (str_int k), Some k) #
         version_plan rest en' eu' (EU(m := insert k (EU m)))"
  | (renumbered) "name \<notin> en m"
      "version_plan ((rid, name, number, m) # rest) en eu EU =
         Some (rid, name, None, Some k) # version_plan rest en' eu' (EU(m := insert k (EU m)))"
  | (both) "version_plan ((rid, name, number, m) # rest) en eu EU =
         Some (rid, name, Some (name @ ''_'' @ take 6 rid), Some k) #
         version_plan rest en' eu' (EU(m := insert k (EU m)))"
  | (renamed) "number \<notin> eu m"
      "version_plan ((rid, name, number, m) # rest) en eu EU =
         Some (rid, name, Some (name @ ''_'' @ take 6 rid), None) # version_plan rest en' eu' EU"
proof -
  consider "name \<notin> en m" "number \<notin> eu m"
    | "name \<in> en m \<or> number \<in> eu m" "str_int number = name"
    | "str_int number \<noteq> name" "name \<notin> en m" "number \<in> eu m"
    | "str_int number \<noteq> name" "name \<in> en m" "number \<in> eu m"
    | "str_int number \<noteq> name" "name \<in> en m" "number \<notin> eu m"
    by blast
  then show ?thesis
  proof cases
    case 1
    then show ?thesis by (intro kept) (simp_all add: en'_def eu'_def)
  next
    case 2
    then show ?thesis
      by (intro numeric) (auto simp: en'_def eu'_def k_def plan_row_def Let_def)
  next
    case 3
    then show ?thesis
      by (intro renumbered) (auto simp: en'_def eu'_def k_def plan_row_def Let_def)
  next
    case 4
    then show ?thesis
      by (intro both) (auto simp: en'_def eu'_def k_def plan_row_def Let_def)
  next
    case 5
    then show ?thesis
      by (intro renamed) (auto simp: en'_def eu'_def k_def plan_row_def Let_def)
  qed
qed

lemma numbers_invariant:
  assumes "\<And>m. finite (EU m)"
    and "\<And>m. eu m \<subseteq> EU m"
    and "\<And>row. row \<in> set rows \<Longrightarrow> fst (snd (snd row)) \<in> EU (snd (snd (snd row)))"
  shows "distinct (final_number_pairs rows (version_plan rows en eu EU)) \<and>
         (\<forall>p \<in> set (final_number_pairs rows (version_plan rows en eu EU)).
            fst p \<notin> eu (snd p) \<and>
            (fst p \<in> EU (snd p) \<longrightarrow>
               p \<in> (\<lambda>row. (fst (snd (snd row)), snd (snd (snd row)))) ` set rows))"
  using assms
proof (induction rows arbitrary: en eu EU)
  case Nil
  then show ?case by (simp add: final_number_pairs_def)
next
  case (Cons a rest)
  obtain rid name number m where a: "a = (rid, name, number, m)" by (cases a) auto
  define en' where "en' = en(m := insert name (en m))"
  define eu' where "eu' = eu(m := insert number (eu m))"
  define k where "k = Max (EU m) + 1"
  define EUk where "EUk = EU(m := insert k (EU m))"
  let ?proj = "\<lambda>row::string \<times> string \<times> int \<times> string. (fst (snd (snd row)), snd (snd (snd row)))"
  have number_in: "number \<in> EU m" using Cons.prems(3) [of a] by (simp add: a)
  have k_fresh: "k \<notin> EU m" using Cons.prems(1) k_def by (rule above_Max_fresh)
  have rest_in: "\<And>row. row \<in> set rest \<Longrightarrow> fst (snd (snd row)) \<in> EU (snd (snd (snd row)))"
    using Cons.prems(3) by simp
  have sub': "\<And>m'. eu' m' \<subseteq> EU m'"
    using Cons.prems(2) number_in by (auto simp: eu'_def)
  have IH_same: "distinct (final_number_pairs rest (version_plan rest en' eu' EU)) \<and>
         (\<forall>p \<in> set (final_number_pairs rest (version_plan rest en' eu' EU)).
            fst p \<notin> eu' (snd p) \<and> (fst p \<in> EU (snd p) \<longrightarrow> p \<in> ?proj ` set rest))"
    by (rule Cons.IH [OF Cons.prems(1) sub' rest_in])
  have fin_k: "\<And>m'. finite (EUk m')" using Cons.prems(1) by (simp add: EUk_def)
  have sub_k: "\<And>m'. eu' m' \<subseteq> EUk m'" using sub' by (auto simp: EUk_def)
  have rest_k: "\<And>row. row \<in> set rest \<Longrightarrow> fst (snd (snd row)) \<in> EUk (snd (snd (snd row)))"
    using rest_in by (auto simp: EUk_def)
  have IH_alloc: "distinct (final_number_pairs rest (version_plan rest en' eu' EUk)) \<and>
         (\<forall>p \<in> set (final_number_pairs rest (version_plan rest en' eu' EUk)).
            fst p \<notin> eu' (snd p) \<and> (fst p \<in> EUk (snd p) \<longrightarrow> p \<in> ?proj ` set rest))"
    by (rule Cons.IH [OF fin_k sub_k rest_k])
  have keep: ?case
    if "number \<notin> eu m"
      and "version_plan (a # rest) en eu EU = opt # version_plan rest en' eu' EU"
      and "final_number number opt = number" for opt
  proof -
    have pairs: "final_number_pairs (a # rest) (version_plan (a # rest) en eu EU) =
           (number, m) # final_number_pairs rest (version_plan rest en' eu' EU)"
      unfolding that(2) by (simp add: final_number_pairs_def a that(3))
    have notin: "(number, m) \<notin> set (final_number_pairs rest (version_plan rest en' eu' EU))"
      using IH_same by (auto simp: eu'_def)
    have "\<forall>p \<in> set (final_number_pairs rest (version_plan rest en' eu' EU)).
            fst p \<notin> eu (snd p) \<and> (fst p \<in> EU (snd p) \<longrightarrow> p \<in> ?proj ` set (a # rest))"
      using IH_same by (auto simp: eu'_def split: if_splits)
    then show ?thesis
      unfolding pairs using that(1) notin IH_same by (simp add: a)
  qed
  have alloc: ?case
    if "version_plan (a # rest) en eu EU = opt # version_plan rest en' eu' EUk"
      and "final_number number opt = k" for opt
  proof -
    have pairs: "final_number_pairs (a # rest) (version_plan (a # rest) en eu EU) =
           (k, m) # final_number_pairs rest (version_plan rest en' eu' EUk)"
      unfolding that(1) by (simp add: final_number_pairs_def a that(2))
    have "(k, m) \<notin> ?proj ` set rest" using rest_in k_fresh by force
    then have notin: "(k, m) \<notin> set (final_number_pairs rest (version_plan rest en' eu' EUk))"
      using IH_alloc by (auto simp: EUk_def)
    have "k \<notin> eu m" using k_fresh Cons.prems(2) by blast
    moreover have "\<forall>p \<in> set (final_number_pairs rest (version_plan rest en' eu' EUk)).
            fst p \<notin> eu (snd p) \<and> (fst p \<in> EU (snd p) \<longrightarrow> p \<in> ?proj ` set (a # rest))"
      using IH_alloc by (auto simp: eu'_def EUk_def split: if_splits)
    ultimately show ?thesis
      unfolding pairs using notin IH_alloc k_fresh by simp
  qed
  show ?case
  proof (cases rule: version_plan_cases [of name en m number eu rid rest EU])
    case kept
    have plan: "version_plan (a # rest) en eu EU = None # version_plan rest en' eu' EU"
      using kept(3) by (simp only: a en'_def eu'_def)
    show ?thesis by (rule keep [OF kept(2) plan]) (simp add: final_number_def)
  next
    case numeric
    have "version_plan (a # rest) en eu EU =
          Some (rid, name, Some (str_int k), Some k) # version_plan rest en' eu' EUk"
      using numeric(2) by (simp only: a en'_def eu'_def k_def EUk_def)
    then show ?thesis by (rule alloc) (simp add: final_number_def)
  next
    case renumbered
    have "version_plan (a # rest) en eu EU =
          Some (rid, name, None, Some k) # version_plan rest en' eu' EUk"
      using renumbered(2) by (simp only: a en'_def eu'_def k_def EUk_def)
    then show ?thesis by (rule alloc) (simp add: final_number_def)
  next
    case both
    have "version_plan (a # rest) en eu EU =
          Some (rid, name, Some (name @ ''_'' @ take 6 rid), Some k) #
          version_plan rest en' eu' EUk"
      using both by (simp only: a en'_def eu'_def k_def EUk_def)
    then show ?thesis by (rule alloc) (simp add: final_number_def)
  next
    case renamed
    have plan: "version_plan (a # rest) en eu EU =
          Some (rid, name, Some (name @ ''_'' @ take 6 rid), None) #
          version_plan rest en' eu' EU"
      using renamed(2) by (simp only: a en'_def eu'_def)
    show ?thesis by (rule keep [OF renamed(1) plan]) (simp add: final_number_def)
  qed
qed

lemma names_invariant:
  assumes "\<And>m. finite (EU m)"
    and "\<And>row. row \<in> set rows \<Longrightarrow> fst (snd (snd row)) \<in> EU (snd (snd (snd row)))"
  shows "distinct (unchanged_name_pairs rows (version_plan rows en eu EU)) \<and>
         (\<forall>p \<in> set (unchanged_name_pairs rows (version_plan rows en eu EU)).
            fst p \<notin> en (snd p))"
  using assms
proof (induction rows arbitrary: en eu EU)
  case Nil
  then show ?case by (simp add: unchanged_name_pairs_def)
next
  case (Cons a rest)
  obtain rid name number m where a: "a = (rid, name, number, m)" by (cases a) auto
  define en' where "en' = en(m := insert name (en m))"
  define eu' where "eu' = eu(m := insert number (eu m))"
  define k where "k = Max (EU m) + 1"
  define EUk where "EUk = EU(m := insert k (EU m))"
  have number_in: "number \<in> EU m" using Cons.prems(2) [of a] by (simp add: a)
  have k_fresh: "k \<notin> EU m" using Cons.prems(1) k_def by (rule above_Max_fresh)
  have k_new: "str_int k \<noteq> str_int number"
    using number_in k_fresh str_int_inj by blast
  have rest_in: "\<And>row. row \<in> set rest \<Longrightarrow> fst (snd (snd row)) \<in> EU (snd (snd (snd row)))"
    using Cons.prems(2) by simp
  have fin_k: "\<And>m'. finite (EUk m')" using Cons.prems(1) by (simp add: EUk_def)
  have rest_k: "\<And>row. row \<in> set rest \<Longrightarrow> fst (snd (snd row)) \<in> EUk (snd (snd (snd row)))"
    using rest_in by (auto simp: EUk_def)
  have IH: "distinct (unchanged_name_pairs rest (version_plan rest en' eu' EU2)) \<and>
         (\<forall>p \<in> set (unchanged_name_pairs rest (version_plan rest en' eu' EU2)).
            fst p \<notin> en' (snd p))"
    if "EU2 = EU \<or> EU2 = EUk" for EU2
    using that Cons.IH [OF Cons.prems(1) rest_in] Cons.IH [OF fin_k rest_k] by blast
  have keep: ?case
    if "name \<notin> en m"
      and "version_plan (a # rest) en eu EU = opt # version_plan rest en' eu' EU2"
      and "final_name name opt = name"
      and "EU2 = EU \<or> EU2 = EUk" for opt EU2
  proof -
    have pairs: "unchanged_name_pairs (a # rest) (version_plan (a # rest) en eu EU) =
           (name, m) # unchanged_name_pairs rest (version_plan rest en' eu' EU2)"
      unfolding that(2) by (simp add: unchanged_name_pairs_def a that(3))
    have notin: "(name, m) \<notin> set (unchanged_name_pairs rest (version_plan rest en' eu' EU2))"
      using IH [OF that(4)] by (auto simp: en'_def)
    have "\<forall>p \<in> set (unchanged_name_pairs rest (version_plan rest en' eu' EU2)).
            fst p \<notin> en (snd p)"
      using IH [OF that(4)] by (auto simp: en'_def split: if_splits)
    then show ?thesis
      unfolding pairs using that(1) notin IH [OF that(4)] by simp
  qed
  have skip: ?case
    if "version_plan (a # rest) en eu EU = opt # version_plan rest en' eu' EU2"
      and "final_name name opt \<noteq> name"
      and "EU2 = EU \<or> EU2 = EUk" for opt EU2
  proof -
    have pairs: "unchanged_name_pairs (a # rest) (version_plan (a # rest) en eu EU) =
           unchanged_name_pairs rest (version_plan rest en' eu' EU2)"
      unfolding that(1) by (simp add: unchanged_name_pairs_def a that(2))
    have "\<forall>p \<in> set (unchanged_name_pairs rest (version_plan rest en' eu' EU2)).
            fst p \<notin> en (snd p)"
      using IH [OF that(3)] by (auto simp: en'_def split: if_splits)
    then show ?thesis
      unfolding pairs using IH [OF that(3)] by simp
  qed
  show ?case
  proof (cases rule: version_plan_cases [of name en m number eu rid rest EU])
    case kept
    have plan: "version_plan (a # rest) en eu EU = None # version_plan rest en' eu' EU"
      using kept(3) by (simp only: a en'_def eu'_def)
    show ?thesis by (rule keep [OF kept(1) plan]) (simp_all add: final_name_def)
  next
    case numeric
    have plan: "version_plan (a # rest) en eu EU =
          Some (rid, name, Some (str_int k), Some k) # version_plan rest en' eu' EUk"
      using numeric(2) by (simp only: a en'_def eu'_def k_def EUk_def)
    show ?thesis
      by (rule skip [OF plan]) (simp_all add: final_name_def numeric(1) k_new)
  next
    case renumbered
    have plan: "version_plan (a # rest) en eu EU =
          Some (rid, name, None, Some k) # version_plan rest en' eu' EUk"
      using renumbered(2) by (simp only: a en'_def eu'_def k_def EUk_def)
    show ?thesis by (rule keep [OF renumbered(1) plan]) (simp_all add: final_name_def)
  next
    case both
    have plan: "version_plan (a # rest) en eu EU =
          Some (rid, name, Some (name @ ''_'' @ take 6 rid), Some k) #
          version_plan rest en' eu' EUk"
      using both by (simp only: a en'_def eu'_def k_def EUk_def)
    show ?thesis by (rule skip [OF plan]) (simp_all add: final_name_def)
  next
    case renamed
    have plan: "version_plan (a # rest) en eu EU =
          Some (rid, name, Some (name @ ''_'' @ take 6 rid), None) #
          version_plan rest en' eu' EU"
      using renamed(2) by (simp only: a en'_def eu'_def)
    show ?thesis by (rule skip [OF plan]) (simp_all add: final_name_def)
  qed
qed

lemma numbers_after_finite:
  "(\<And>m. finite (eu m)) \<Longrightarrow> finite (numbers_after rows eu m)"
  by (induction rows arbitrary: eu) auto

lemma set_values_where_fold:
  "(\<lambda>T (rid, old, vals). map (set_values_where rid vals) T) =
   (\<lambda>T f. map ((\<lambda>(rid, old, vals). set_values_where rid vals) f) T)"
  by (simp add: fun_eq_iff split_def)

lemma apply_values_rows:
  assumes "distinct (map v_id T)"
  shows "apply_values (version_fixes (flagged (select_versions T) en eu) EU) T =
         map2 (\<lambda>r opt. r\<lparr>v_name := final_name (v_name r) opt,
                          v_number := final_number (v_number r) opt\<rparr>)
           T (version_plan (select_versions T) en eu EU)"
proof -
  let ?g = "\<lambda>(rid, old, vals). set_values_where rid vals"
  let ?opts = "version_plan (select_versions T) en eu EU"
  have keys: "\<And>r f. (r, Some f) \<in> set (zip T ?opts) \<Longrightarrow> fst f = v_id r"
  proof -
    fix r f assume "(r, Some f) \<in> set (zip T ?opts)"
    then obtain i where i: "i < length T" "i < length ?opts" "T ! i = r" "?opts ! i = Some f"
      by (auto simp: in_set_zip)
    then have "((v_id r, v_name r, v_number r, v_model_id r), Some f) \<in>
               set (zip (select_versions T) ?opts)"
      by (auto simp: in_set_zip select_versions_def intro!: exI [of _ i])
    then show "fst f = v_id r" using version_plan_entry by fastforce
  qed
  have "map (\<lambda>r. foldl (\<lambda>r f. ?g f r) r (somes ?opts)) T =
        map2 (\<lambda>r opt. case opt of None \<Rightarrow> r | Some f \<Rightarrow> ?g f r) T ?opts"
  proof (rule apply_by_key [where key = v_id and fkey = fst])
    show "\<And>f r. v_id r \<noteq> fst f \<Longrightarrow> ?g f r = r"
      by (auto simp: set_values_where_def split_def)
    show "\<And>f r. v_id (?g f r) = v_id r"
      by (auto simp: set_values_where_def split_def Let_def split: option.splits)
    show "distinct (map v_id T)" by (rule assms)
    show "length ?opts = length T" by (simp add: version_plan_length select_versions_def)
    show "\<And>r f. (r, Some f) \<in> set (zip T ?opts) \<Longrightarrow> fst f = v_id r" by (rule keys)
  qed
  moreover have "map2 (\<lambda>r opt. case opt of None \<Rightarrow> r | Some f \<Rightarrow> ?g f r) T ?opts =
        map2 (\<lambda>r opt. r\<lparr>v_name := final_name (v_name r) opt,
                         v_number := final_number (v_number r) opt\<rparr>) T ?opts"
  proof (rule map_cong [OF refl])
    fix x assume xin: "x \<in> set (zip T ?opts)"
    obtain r opt where x1: "x = (r, opt)" by (cases x) auto
    have x: "(r, opt) \<in> set (zip T ?opts)" using xin x1 by simp
    show "(case x of (r, opt) \<Rightarrow> case opt of None \<Rightarrow> r | Some f \<Rightarrow> ?g f r) =
          (case x of (r, opt) \<Rightarrow> r\<lparr>v_name := final_name (v_name r) opt,
                                     v_number := final_number (v_number r) opt\<rparr>)"
    proof (cases opt)
      case None
      then show ?thesis by (simp add: x1 final_name_def final_number_def)
    next
      case (Some f)
      then have "fst f = v_id r" using keys x by blast
      then show ?thesis
        by (simp add: x1 Some set_values_where_def split_def final_name_def final_number_def
            Let_def split: option.splits)
    qed
  qed
  ultimately show ?thesis
    by (simp add: apply_values_def set_values_where_fold foldl_map_rows version_fixes_plan)
qed

subsection \<open>Uniqueness of version names and numbers\<close>

lemma kept_name_pairs_map2:
  "kept_name_pairs T
     (map2 (\<lambda>r opt. r\<lparr>v_name := final_name (v_name r) opt,
                      v_number := final_number (v_number r) opt\<rparr>) T P) =
   unchanged_name_pairs (select_versions T) P"
proof (induction T arbitrary: P)
  case Nil
  then show ?case by (simp add: kept_name_pairs_def unchanged_name_pairs_def select_versions_def)
next
  case (Cons r T)
  show ?case
  proof (cases P)
    case Nil
    then show ?thesis
      by (simp add: kept_name_pairs_def unchanged_name_pairs_def select_versions_def)
  next
    case (Cons opt P')
    have IH: "kept_name_pairs T
       (map2 (\<lambda>r opt. r\<lparr>v_name := final_name (v_name r) opt,
                        v_number := final_number (v_number r) opt\<rparr>) T P') =
       unchanged_name_pairs (select_versions T) P'"
      by (rule Cons.IH)
    have k: "kept_name_pairs (r # T)
       (map2 (\<lambda>r opt. r\<lparr>v_name := final_name (v_name r) opt,
                        v_number := final_number (v_number r) opt\<rparr>) (r # T) (opt # P')) =
       (if final_name (v_name r) opt = v_name r then [(v_name r, v_model_id r)] else []) @
       kept_name_pairs T
         (map2 (\<lambda>r opt. r\<lparr>v_name := final_name (v_name r) opt,
                          v_number := final_number (v_number r) opt\<rparr>) T P')"
      by (simp add: kept_name_pairs_def)
    have u: "unchanged_name_pairs (select_versions (r # T)) (opt # P') =
       (if final_name (v_name r) opt = v_name r then [(v_name r, v_model_id r)] else []) @
       unchanged_name_pairs (select_versions T) P'"
      by (simp add: unchanged_name_pairs_def select_versions_def)
    show ?thesis unfolding Cons k u IH ..
  qed
qed

lemma resolved_versions:
  assumes "resolve_duplicate_entities w = Inr w'" and "distinct (map v_id (model_version w))"
  shows "model_version w' =
     map2 (\<lambda>r opt. r\<lparr>v_name := final_name (v_name r) opt,
                      v_number := final_number (v_number r) opt\<rparr>)
       (model_version w)
       (version_plan (select_versions (model_version w)) (\<lambda>_. {}) (\<lambda>_. {})
          (numbers_after (select_versions (model_version w)) (\<lambda>_. {})))"
proof -
  have "model_version w' = apply_values (planned_fixes w) (model_version w)"
    using assms(1) by (auto simp: resolve_duplicate_entities_effect)
  then show ?thesis
    unfolding planned_fixes_def by (simp only: apply_values_rows [OF assms(2)])
qed

lemma resolved_number_pairs:
  assumes "resolve_duplicate_entities w = Inr w'" and "distinct (map v_id (model_version w))"
  shows "number_group_pairs (model_version w') =
     final_number_pairs (select_versions (model_version w))
       (version_plan (select_versions (model_version w)) (\<lambda>_. {}) (\<lambda>_. {})
          (numbers_after (select_versions (model_version w)) (\<lambda>_. {})))"
  unfolding resolved_versions [OF assms]
  by (simp add: number_group_pairs_def final_number_pairs_def select_versions_def zip_map1
      split_def comp_def)

lemma resolved_kept_names:
  assumes "resolve_duplicate_entities w = Inr w'" and "distinct (map v_id (model_version w))"
  shows "kept_name_pairs (model_version w) (model_version w') =
     unchanged_name_pairs (select_versions (model_version w))
       (version_plan (select_versions (model_version w)) (\<lambda>_. {}) (\<lambda>_. {})
          (numbers_after (select_versions (model_version w)) (\<lambda>_. {})))"
  unfolding resolved_versions [OF assms] by (rule kept_name_pairs_map2)

lemma read_numbers_covered:
  "row \<in> set rows \<Longrightarrow> fst (snd (snd row)) \<in> numbers_after rows eu (snd (snd (snd row)))"
  using numbers_after_rows [of "fst row" "fst (snd row)" "fst (snd (snd row))"
      "snd (snd (snd row))" rows eu]
  by simp

lemma distinct_filtered_nth:
  assumes "distinct (map g (filter P zs))"
    and "i < j" and "j < length zs" and "P (zs ! i)" and "P (zs ! j)"
  shows "g (zs ! i) \<noteq> g (zs ! j)"
  using assms
proof (induction zs arbitrary: i j)
  case Nil
  then show ?case by simp
next
  case (Cons z zs)
  obtain j' where j: "j = Suc j'" using Cons.prems(2) by (cases j) auto
  show ?case
  proof (cases i)
    case 0
    have "P z" using Cons.prems(4) 0 by simp
    then have "g z \<notin> set (map g (filter P zs))" using Cons.prems(1) by simp
    moreover have "zs ! j' \<in> set (filter P zs)"
      using Cons.prems(3,5) j by simp
    ultimately show ?thesis using 0 j by force
  next
    case (Suc i')
    have "distinct (map g (filter P zs))" using Cons.prems(1) by (simp split: if_splits)
    then have "g (zs ! i') \<noteq> g (zs ! j')"
      using Cons.prems(2-5) Suc j by (intro Cons.IH) simp_all
    then show ?thesis using Suc j by simp
  qed
qed

lemma resolved_versions_length:
  assumes "resolve_duplicate_entities w = Inr w'" and "distinct (map v_id (model_version w))"
  shows "length (model_version w') = length (model_version w)"
  unfolding resolved_versions [OF assms]
  by (simp add: version_plan_length select_versions_def)

text \<open>
  C2, as amended. After the resolution of model versions whose ids are pairwise distinct,
  the (number, model_id) pairs of all rows are pairwise distinct, and so are the
  (name, model_id) pairs of the rows that keep the name they were read with. The
  (name, model_id) pairs of all rows are pairwise distinct if and only if every rewritten
  name differs from the name every other row of its group ends with. Pass 2 does not
  check this.
\<close>

theorem version_numbers_unique_and_kept_names_unique:
  assumes "resolve_duplicate_entities w = Inr w'"
    and "distinct (map v_id (model_version w))"
  shows "distinct (number_group_pairs (model_version w')) \<and>
         distinct (kept_name_pairs (model_version w) (model_version w')) \<and>
         (distinct (name_group_pairs (model_version w')) \<longleftrightarrow>
            (\<forall>i<length (model_version w).
               v_name (model_version w' ! i) \<noteq> v_name (model_version w ! i) \<longrightarrow>
               (\<forall>j<length (model_version w). j \<noteq> i \<longrightarrow>
                  name_group_pairs (model_version w') ! j \<noteq>
                  name_group_pairs (model_version w') ! i)))"
proof -
  let ?rows = "select_versions (model_version w)"
  let ?EU = "numbers_after ?rows (\<lambda>_. {})"
  define T where "T = model_version w"
  define T' where "T' = model_version w'"
  define xs where "xs = name_group_pairs T'"
  have fin: "\<And>m. finite (?EU m)" by (rule numbers_after_finite) simp
  have sub: "\<And>m. (\<lambda>_. {}) m \<subseteq> ?EU m" by simp
  have cov: "\<And>row. row \<in> set ?rows \<Longrightarrow> fst (snd (snd row)) \<in> ?EU (snd (snd (snd row)))"
    by (rule read_numbers_covered)
  have "distinct (final_number_pairs ?rows (version_plan ?rows (\<lambda>_. {}) (\<lambda>_. {}) ?EU))"
    using numbers_invariant [of ?EU "\<lambda>_. {}" ?rows "\<lambda>_. {}", OF fin sub cov] by blast
  then have numbers: "distinct (number_group_pairs T')"
    by (simp only: resolved_number_pairs [OF assms] T'_def)
  have "distinct (unchanged_name_pairs ?rows (version_plan ?rows (\<lambda>_. {}) (\<lambda>_. {}) ?EU))"
    using names_invariant [of ?EU ?rows "\<lambda>_. {}" "\<lambda>_. {}", OF fin cov] by blast
  then have kept: "distinct (kept_name_pairs T T')"
    by (simp only: resolved_kept_names [OF assms] T_def T'_def)
  have len: "length T' = length T"
    unfolding T_def T'_def by (rule resolved_versions_length [OF assms])
  have lxs: "length xs = length T" by (simp add: xs_def name_group_pairs_def len)
  have kept_nth: "xs ! i \<noteq> xs ! j"
    if "i < j" "j < length T" "v_name (T' ! i) = v_name (T ! i)" "v_name (T' ! j) = v_name (T ! j)"
    for i j
  proof -
    let ?g = "\<lambda>(r, r'). (v_name r', v_model_id r')"
    let ?P = "\<lambda>(r, r'). v_name r' = v_name r"
    have "?g (zip T T' ! i) \<noteq> ?g (zip T T' ! j)"
    proof (rule distinct_filtered_nth [where P = ?P])
      show "distinct (map ?g (filter ?P (zip T T')))"
        using kept by (simp add: kept_name_pairs_def)
      show "i < j" by (rule that(1))
      show "j < length (zip T T')" using that(2) len by simp
      show "?P (zip T T' ! i)" using that len by simp
      show "?P (zip T T' ! j)" using that len by simp
    qed
    then show ?thesis using that len by (simp add: xs_def name_group_pairs_def)
  qed
  have names: "distinct xs \<longleftrightarrow>
        (\<forall>i<length T. v_name (T' ! i) \<noteq> v_name (T ! i) \<longrightarrow>
           (\<forall>j<length T. j \<noteq> i \<longrightarrow> xs ! j \<noteq> xs ! i))"
  proof
    assume "distinct xs"
    then show "\<forall>i<length T. v_name (T' ! i) \<noteq> v_name (T ! i) \<longrightarrow>
           (\<forall>j<length T. j \<noteq> i \<longrightarrow> xs ! j \<noteq> xs ! i)"
      using lxs by (simp add: nth_eq_iff_index_eq)
  next
    assume h: "\<forall>i<length T. v_name (T' ! i) \<noteq> v_name (T ! i) \<longrightarrow>
           (\<forall>j<length T. j \<noteq> i \<longrightarrow> xs ! j \<noteq> xs ! i)"
    have "xs ! i \<noteq> xs ! j" if "i < length xs" "j < length xs" "i \<noteq> j" for i j
    proof (cases "v_name (T' ! i) = v_name (T ! i) \<and> v_name (T' ! j) = v_name (T ! j)")
      case True
      show ?thesis
      proof (cases "i < j")
        case True
        then show ?thesis
          using kept_nth [of i j] that lxs \<open>v_name (T' ! i) = v_name (T ! i) \<and> _\<close> by simp
      next
        case False
        then have "j < i" using that(3) by simp
        then have "xs ! j \<noteq> xs ! i"
          using kept_nth [of j i] that lxs \<open>v_name (T' ! i) = v_name (T ! i) \<and> _\<close> by simp
        then show ?thesis by simp
      qed
    next
      case False
      then show ?thesis using h that lxs by metis
    qed
    then show "distinct xs" by (simp add: distinct_conv_nth)
  qed
  show ?thesis
    using numbers kept names unfolding xs_def T_def T'_def by blast
qed

theorem version_numbers_unique_and_kept_names_unique_witness:
  "resolve_duplicate_entities scenario_b =
     Inr (scenario_b\<lparr>model_version :=
            [\<lparr>v_id = ''v1'', v_name = ''1'', v_number = 1, v_model_id = ''m1''\<rparr>,
             \<lparr>v_id = ''v2'', v_name = ''2'', v_number = 2, v_model_id = ''m1''\<rparr>],
            executed := [UpdateVersion ''v2'' (Some ''2'') (Some 2)],
            warnings := [(version_warning, [''1'', ''2''])]\<rparr>) \<and>
   distinct (map v_id (model_version scenario_b)) \<and>
   number_group_pairs
     [\<lparr>v_id = ''v1'', v_name = ''1'', v_number = 1, v_model_id = ''m1''\<rparr>,
      \<lparr>v_id = ''v2'', v_name = ''2'', v_number = 2, v_model_id = ''m1''\<rparr>] =
     [(1, ''m1''), (2, ''m1'')] \<and>
   kept_name_pairs (model_version scenario_b)
     [\<lparr>v_id = ''v1'', v_name = ''1'', v_number = 1, v_model_id = ''m1''\<rparr>,
      \<lparr>v_id = ''v2'', v_name = ''2'', v_number = 2, v_model_id = ''m1''\<rparr>] =
     [(''1'', ''m1'')]"
proof -
  have r: "resolve_duplicate_entities scenario_b =
     Inr (scenario_b\<lparr>model_version :=
            [\<lparr>v_id = ''v1'', v_name = ''1'', v_number = 1, v_model_id = ''m1''\<rparr>,
             \<lparr>v_id = ''v2'', v_name = ''2'', v_number = 2, v_model_id = ''m1''\<rparr>],
            executed := [UpdateVersion ''v2'' (Some ''2'') (Some 2)],
            warnings := [(version_warning, [''1'', ''2''])]\<rparr>)"
    by (simp add: run_simps scenario_b_def)
  have d: "distinct (map v_id (model_version scenario_b))"
    by (simp add: scenario_b_def)
  show ?thesis
    using r d version_numbers_unique_and_kept_names_unique [OF r d]
    by (simp add: scenario_b_def number_group_pairs_def kept_name_pairs_def)
qed

text \<open>
  C2 as stated fails for names. In \<open>numeric_clash\<close> the second version is renamed to
  \<open>2\<close>, the rendering of the number allocated to it, and the third version of the same
  model is named \<open>2\<close> already.
\<close>

theorem version_names_unique_counterexample:
  "distinct (map v_id (model_version numeric_clash)) \<and>
   resolve_duplicate_entities numeric_clash =
     Inr (numeric_clash\<lparr>model_version :=
            [\<lparr>v_id = ''v1'', v_name = ''1'', v_number = 1, v_model_id = ''m1''\<rparr>,
             \<lparr>v_id = ''v2'', v_name = ''2'', v_number = 2, v_model_id = ''m1''\<rparr>,
             \<lparr>v_id = ''v3'', v_name = ''2'', v_number = 0, v_model_id = ''m1''\<rparr>],
            executed := [UpdateVersion ''v2'' (Some ''2'') (Some 2)],
            warnings := [(version_warning, [''1'', ''2''])]\<rparr>) \<and>
   \<not> distinct (name_group_pairs
     [\<lparr>v_id = ''v1'', v_name = ''1'', v_number = 1, v_model_id = ''m1''\<rparr>,
      \<lparr>v_id = ''v2'', v_name = ''2'', v_number = 2, v_model_id = ''m1''\<rparr>,
      \<lparr>v_id = ''v3'', v_name = ''2'', v_number = 0, v_model_id = ''m1''\<rparr>])"
  by (simp add: run_simps numeric_clash_def name_group_pairs_def)

subsection \<open>The audit log\<close>

lemma simple_audit_rows:
  "map (\<lambda>(rid, old, new). (simple_warning, [table_name t, old, new]))
     (somes (simple_plan (select_entities T) ex)) =
   renamed_entities t T
     (map2 (\<lambda>r opt. case opt of None \<Rightarrow> r | Some (rid, old, new) \<Rightarrow> r\<lparr>e_name := new\<rparr>)
        T (simple_plan (select_entities T) ex))"
  by (induction T arbitrary: ex) (auto simp: select_entities_def renamed_entities_def)

lemma resolved_simple_audit:
  assumes "resolve_duplicate_entities w = Inr w'" and "distinct (map e_id (get_table t w))"
  shows "simple_audit t w = renamed_entities t (get_table t w) (get_table t w')"
  unfolding resolved_table_rows [OF assms]
  by (simp add: simple_audit_def table_fixes_def simple_fixes_plan simple_audit_rows)

lemma version_audit_invariant:
  assumes "\<And>m. finite (EU m)"
    and "\<And>row. row \<in> set rows \<Longrightarrow> fst (snd (snd row)) \<in> EU (snd (snd (snd row)))"
  shows "concat (map version_audit (somes (version_plan rows en eu EU))) =
         version_name_changes rows (version_plan rows en eu EU)"
  using assms
proof (induction rows arbitrary: en eu EU)
  case Nil
  then show ?case by (simp add: version_name_changes_def)
next
  case (Cons a rest)
  obtain rid name number m where a: "a = (rid, name, number, m)" by (cases a) auto
  define en' where "en' = en(m := insert name (en m))"
  define eu' where "eu' = eu(m := insert number (eu m))"
  define k where "k = Max (EU m) + 1"
  define EUk where "EUk = EU(m := insert k (EU m))"
  have number_in: "number \<in> EU m" using Cons.prems(2) [of a] by (simp add: a)
  have k_fresh: "k \<notin> EU m" using Cons.prems(1) k_def by (rule above_Max_fresh)
  have k_new: "str_int k \<noteq> str_int number"
    using number_in k_fresh str_int_inj by blast
  have rest_in: "\<And>row. row \<in> set rest \<Longrightarrow> fst (snd (snd row)) \<in> EU (snd (snd (snd row)))"
    using Cons.prems(2) by simp
  have fin_k: "\<And>m'. finite (EUk m')" using Cons.prems(1) by (simp add: EUk_def)
  have rest_k: "\<And>row. row \<in> set rest \<Longrightarrow> fst (snd (snd row)) \<in> EUk (snd (snd (snd row)))"
    using rest_in by (auto simp: EUk_def)
  have IH: "concat (map version_audit (somes (version_plan rest en' eu' EU2))) =
         version_name_changes rest (version_plan rest en' eu' EU2)"
    if "EU2 = EU \<or> EU2 = EUk" for EU2
    using that Cons.IH [OF Cons.prems(1) rest_in] Cons.IH [OF fin_k rest_k] by blast
  have step: ?case
    if "version_plan (a # rest) en eu EU = opt # version_plan rest en' eu' EU2"
      and "EU2 = EU \<or> EU2 = EUk"
      and "concat (map version_audit (somes [opt])) = version_name_changes [a] [opt]"
    for opt EU2
  proof -
    have l: "concat (map version_audit (somes (opt # version_plan rest en' eu' EU2))) =
          concat (map version_audit (somes [opt])) @
          concat (map version_audit (somes (version_plan rest en' eu' EU2)))"
      by (cases opt) simp_all
    have r: "version_name_changes (a # rest) (opt # version_plan rest en' eu' EU2) =
          version_name_changes [a] [opt] @
          version_name_changes rest (version_plan rest en' eu' EU2)"
      by (simp add: version_name_changes_def)
    show ?thesis
      unfolding that(1) l r that(3) IH [OF that(2)] ..
  qed
  show ?case
  proof (cases rule: version_plan_cases [of name en m number eu rid rest EU])
    case kept
    have plan: "version_plan (a # rest) en eu EU = None # version_plan rest en' eu' EU"
      using kept(3) by (simp only: a en'_def eu'_def)
    show ?thesis
      by (rule step [OF plan]) (simp_all add: final_name_def version_name_changes_def a)
  next
    case numeric
    have plan: "version_plan (a # rest) en eu EU =
          Some (rid, name, Some (str_int k), Some k) # version_plan rest en' eu' EUk"
      using numeric(2) by (simp only: a en'_def eu'_def k_def EUk_def)
    show ?thesis
      by (rule step [OF plan])
         (simp_all add: final_name_def version_audit_def version_name_changes_def a numeric(1)
            k_new)
  next
    case renumbered
    have plan: "version_plan (a # rest) en eu EU =
          Some (rid, name, None, Some k) # version_plan rest en' eu' EUk"
      using renumbered(2) by (simp only: a en'_def eu'_def k_def EUk_def)
    show ?thesis
      by (rule step [OF plan])
         (simp_all add: final_name_def version_audit_def version_name_changes_def a)
  next
    case both
    have plan: "version_plan (a # rest) en eu EU =
          Some (rid, name, Some (name @ ''_'' @ take 6 rid), Some k) #
          version_plan rest en' eu' EUk"
      using both by (simp only: a en'_def eu'_def k_def EUk_def)
    show ?thesis
      by (rule step [OF plan])
         (simp_all add: final_name_def version_audit_def version_name_changes_def a)
  next
    case renamed
    have plan: "version_plan (a # rest) en eu EU =
          Some (rid, name, Some (name @ ''_'' @ take 6 rid), None) #
          version_plan rest en' eu' EU"
      using renamed(2) by (simp only: a en'_def eu'_def)
    show ?thesis
      by (rule step [OF plan])
         (simp_all add: final_name_def version_audit_def version_name_changes_def a)
  qed
qed

lemma renamed_versions_map2:
  "renamed_versions T
     (map2 (\<lambda>r opt. r\<lparr>v_name := final_name (v_name r) opt,
                      v_number := final_number (v_number r) opt\<rparr>) T P) =
   version_name_changes (select_versions T) P"
proof (induction T arbitrary: P)
  case Nil
  then show ?case by (simp add: renamed_versions_def version_name_changes_def select_versions_def)
next
  case (Cons r T)
  show ?case
  proof (cases P)
    case Nil
    then show ?thesis
      by (simp add: renamed_versions_def version_name_changes_def select_versions_def)
  next
    case (Cons opt P')
    have IH: "renamed_versions T
       (map2 (\<lambda>r opt. r\<lparr>v_name := final_name (v_name r) opt,
                        v_number := final_number (v_number r) opt\<rparr>) T P') =
       version_name_changes (select_versions T) P'"
      by (rule Cons.IH)
    have k: "renamed_versions (r # T)
       (map2 (\<lambda>r opt. r\<lparr>v_name := final_name (v_name r) opt,
                        v_number := final_number (v_number r) opt\<rparr>) (r # T) (opt # P')) =
       (if final_name (v_name r) opt \<noteq> v_name r
        then [(version_warning, [v_name r, final_name (v_name r) opt])] else []) @
       renamed_versions T
         (map2 (\<lambda>r opt. r\<lparr>v_name := final_name (v_name r) opt,
                          v_number := final_number (v_number r) opt\<rparr>) T P')"
      by (simp add: renamed_versions_def)
    have u: "version_name_changes (select_versions (r # T)) (opt # P') =
       (if final_name (v_name r) opt \<noteq> v_name r
        then [(version_warning, [v_name r, final_name (v_name r) opt])] else []) @
       version_name_changes (select_versions T) P'"
      by (simp add: version_name_changes_def select_versions_def)
    show ?thesis unfolding Cons k u IH ..
  qed
qed

lemma resolved_version_audit:
  assumes "resolve_duplicate_entities w = Inr w'" and "distinct (map v_id (model_version w))"
  shows "concat (map version_audit (planned_fixes w)) =
         renamed_versions (model_version w) (model_version w')"
proof -
  let ?rows = "select_versions (model_version w)"
  let ?EU = "numbers_after ?rows (\<lambda>_. {})"
  have fin: "\<And>m. finite (?EU m)" by (rule numbers_after_finite) simp
  have cov: "\<And>row. row \<in> set ?rows \<Longrightarrow> fst (snd (snd row)) \<in> ?EU (snd (snd (snd row)))"
    by (rule read_numbers_covered)
  have "concat (map version_audit (planned_fixes w)) =
        version_name_changes ?rows (version_plan ?rows (\<lambda>_. {}) (\<lambda>_. {}) ?EU)"
    unfolding planned_fixes_def version_fixes_plan
    by (rule version_audit_invariant [OF fin cov])
  then show ?thesis
    unfolding resolved_versions [OF assms] by (simp only: renamed_versions_map2)
qed

lemma written_names_simple:
  "concat (map written_name (simple_updates t w)) = map (\<lambda>e. last (snd e)) (simple_audit t w)"
  by (simp add: simple_updates_def simple_audit_def split_def comp_def)

lemma written_names_versions:
  "concat (map written_name
      (map (\<lambda>(rid, old, vals). UpdateVersion rid (fst vals) (snd vals)) fs)) =
   map (\<lambda>e. last (snd e)) (concat (map version_audit fs))"
proof (induction fs)
  case Nil
  then show ?case by simp
next
  case (Cons f fs)
  obtain rid old vn vk where f: "f = (rid, old, vn, vk)" by (cases f) auto
  show ?case using Cons.IH by (cases vn) (simp_all add: f version_audit_def)
qed

lemma written_names_version_updates:
  "concat (map written_name (version_updates w)) =
   map (\<lambda>e. last (snd e)) (concat (map version_audit (planned_fixes w)))"
  unfolding version_updates_def by (rule written_names_versions)

lemma written_names_run:
  "concat (map written_name (run_updates w)) = map (\<lambda>e. last (snd e)) (run_audit w)"
  by (simp add: run_updates_def run_audit_def written_names_simple
      written_names_version_updates)

text \<open>
  C7, as amended. On tables whose ids are pairwise distinct, the warnings one run of the
  resolution emits are, in order, one entry for each row whose name the run changed,
  holding the name read and the name written: first the rows of \<open>pipeline_run\<close>, then
  those of \<open>pipeline\<close>, of \<open>model\<close> and of \<open>model_version\<close>. Statement by statement, the
  names the executed updates write are the new names the warnings record: every update
  of a simple entity has its warning, and an update of a model version has one exactly
  when it writes a name.
\<close>

theorem warnings_record_exactly_the_renames:
  assumes "resolve_duplicate_entities w = Inr w'"
    and "distinct (map e_id (pipeline_run w))"
    and "distinct (map e_id (pipeline w))"
    and "distinct (map e_id (model w))"
    and "distinct (map v_id (model_version w))"
  shows "warnings w' = warnings w @
           renamed_entities PipelineRun (pipeline_run w) (pipeline_run w') @
           renamed_entities Pipeline (pipeline w) (pipeline w') @
           renamed_entities Model (model w) (model w') @
           renamed_versions (model_version w) (model_version w') \<and>
         map (\<lambda>e. last (snd e)) (drop (length (warnings w)) (warnings w')) =
           concat (map written_name (drop (length (executed w)) (executed w')))"
proof -
  have ws: "warnings w' = warnings w @ run_audit w"
    and ex: "executed w' = executed w @ run_updates w"
    using assms(1) by (auto simp: resolve_duplicate_entities_effect)
  have a1: "simple_audit PipelineRun w =
            renamed_entities PipelineRun (pipeline_run w) (pipeline_run w')"
    using resolved_simple_audit [OF assms(1), of PipelineRun] assms(2) by simp
  have a2: "simple_audit Pipeline w = renamed_entities Pipeline (pipeline w) (pipeline w')"
    using resolved_simple_audit [OF assms(1), of Pipeline] assms(3) by simp
  have a3: "simple_audit Model w = renamed_entities Model (model w) (model w')"
    using resolved_simple_audit [OF assms(1), of Model] assms(4) by simp
  have a4: "concat (map version_audit (planned_fixes w)) =
            renamed_versions (model_version w) (model_version w')"
    by (rule resolved_version_audit [OF assms(1,5)])
  have "run_audit w =
           renamed_entities PipelineRun (pipeline_run w) (pipeline_run w') @
           renamed_entities Pipeline (pipeline w) (pipeline w') @
           renamed_entities Model (model w) (model w') @
           renamed_versions (model_version w) (model_version w')"
    by (simp only: run_audit_def a1 a2 a3 a4)
  then have first: "warnings w' = warnings w @
           renamed_entities PipelineRun (pipeline_run w) (pipeline_run w') @
           renamed_entities Pipeline (pipeline w) (pipeline w') @
           renamed_entities Model (model w) (model w') @
           renamed_versions (model_version w) (model_version w')"
    using ws by simp
  have second: "map (\<lambda>e. last (snd e)) (drop (length (warnings w)) (warnings w')) =
           concat (map written_name (drop (length (executed w)) (executed w')))"
    by (simp add: ws ex written_names_run)
  show ?thesis using first second by blast
qed

theorem warnings_record_exactly_the_renames_witness:
  "resolve_duplicate_entities scenario_b =
     Inr (scenario_b\<lparr>model_version :=
            [\<lparr>v_id = ''v1'', v_name = ''1'', v_number = 1, v_model_id = ''m1''\<rparr>,
             \<lparr>v_id = ''v2'', v_name = ''2'', v_number = 2, v_model_id = ''m1''\<rparr>],
            executed := [UpdateVersion ''v2'' (Some ''2'') (Some 2)],
            warnings := [(version_warning, [''1'', ''2''])]\<rparr>) \<and>
   distinct (map e_id (pipeline_run scenario_b)) \<and>
   distinct (map e_id (pipeline scenario_b)) \<and>
   distinct (map e_id (model scenario_b)) \<and>
   distinct (map v_id (model_version scenario_b)) \<and>
   renamed_versions (model_version scenario_b)
     [\<lparr>v_id = ''v1'', v_name = ''1'', v_number = 1, v_model_id = ''m1''\<rparr>,
      \<lparr>v_id = ''v2'', v_name = ''2'', v_number = 2, v_model_id = ''m1''\<rparr>] =
     [(version_warning, [''1'', ''2''])] \<and>
   concat (map written_name [UpdateVersion ''v2'' (Some ''2'') (Some 2)]) = [''2'']"
proof -
  have r: "resolve_duplicate_entities scenario_b =
     Inr (scenario_b\<lparr>model_version :=
            [\<lparr>v_id = ''v1'', v_name = ''1'', v_number = 1, v_model_id = ''m1''\<rparr>,
             \<lparr>v_id = ''v2'', v_name = ''2'', v_number = 2, v_model_id = ''m1''\<rparr>],
            executed := [UpdateVersion ''v2'' (Some ''2'') (Some 2)],
            warnings := [(version_warning, [''1'', ''2''])]\<rparr>)"
    by (simp add: run_simps scenario_b_def)
  have d: "distinct (map e_id (pipeline_run scenario_b))"
    "distinct (map e_id (pipeline scenario_b))"
    "distinct (map e_id (model scenario_b))"
    "distinct (map v_id (model_version scenario_b))"
    by (simp_all add: scenario_b_def)
  show ?thesis
    using r d warnings_record_exactly_the_renames [OF r d]
    by (simp add: scenario_b_def renamed_versions_def renamed_entities_def)
qed

text \<open>
  C7 as stated fails. In \<open>number_clash\<close> the second version has a custom name and collides
  on the number only: the run executes one update, which sets the number to 2, and emits
  no warning.
\<close>

theorem number_only_fix_is_not_logged_counterexample:
  "warnings number_clash = [] \<and>
   resolve_duplicate_entities number_clash =
     Inr (number_clash\<lparr>model_version :=
            [\<lparr>v_id = ''v1'', v_name = ''alpha'', v_number = 1, v_model_id = ''m1''\<rparr>,
             \<lparr>v_id = ''v2'', v_name = ''beta'', v_number = 2, v_model_id = ''m1''\<rparr>],
            executed := [UpdateVersion ''v2'' None (Some 2)],
            warnings := []\<rparr>)"
  by (simp add: run_simps number_clash_def)

subsection \<open>Upgrade and downgrade\<close>

lemma distinct_map_same:
  assumes "\<And>x y. f x = f y \<longleftrightarrow> g x = g y"
  shows "distinct (map f xs) = distinct (map g xs)"
proof (induction xs)
  case Nil
  then show ?case by simp
next
  case (Cons x xs)
  have "f x \<in> f ` set xs \<longleftrightarrow> g x \<in> g ` set xs"
    by (simp add: image_iff assms)
  then show ?case using Cons.IH by simp
qed

lemma key_tuples_simple:
  "distinct (key_tuples ''pipeline_run'' [''name'', ''workspace_id''] w) =
     distinct (name_scope_pairs (pipeline_run w))"
  "distinct (key_tuples ''pipeline'' [''name'', ''workspace_id''] w) =
     distinct (name_scope_pairs (pipeline w))"
  "distinct (key_tuples ''model'' [''name'', ''workspace_id''] w) =
     distinct (name_scope_pairs (model w))"
  unfolding key_tuples_def name_scope_pairs_def
  by (simp_all add: entity_cell_def distinct_map_same
      [of "\<lambda>r. [Text (e_name r), Text (e_workspace_id r)]" "\<lambda>r. (e_name r, e_workspace_id r)"])

lemma key_tuples_versions:
  "distinct (key_tuples ''model_version'' [''name'', ''model_id''] w) =
     distinct (name_group_pairs (model_version w))"
  "distinct (key_tuples ''model_version'' [''number'', ''model_id''] w) =
     distinct (number_group_pairs (model_version w))"
  unfolding key_tuples_def name_group_pairs_def number_group_pairs_def
  by (simp_all add: version_cell_def
      distinct_map_same
        [of "\<lambda>r. [Text (v_name r), Text (v_model_id r)]" "\<lambda>r. (v_name r, v_model_id r)"]
      distinct_map_same
        [of "\<lambda>r. [Number (v_number r), Text (v_model_id r)]" "\<lambda>r. (v_number r, v_model_id r)"])

lemma key_tuples_frame:
  "key_tuples tbl cols (w\<lparr>constraints := cs, executed := ex\<rparr>) = key_tuples tbl cols w"
  by (simp add: key_tuples_def)

lemma create_unique_constraint_known:
  assumes "table_columns tbl = Some known" and "set cols \<subseteq> set known"
  shows "create_unique_constraint tbl cname cols w =
     (if distinct (key_tuples tbl cols w)
      then Inr (w\<lparr>constraints := put_constraint (tbl, cname, cols) (constraints w),
                 executed := executed w @ [CreateUnique tbl cname cols]\<rparr>)
      else Inl IntegrityError)"
  using assms by (simp add: create_unique_constraint_def)

lemma add_constraints_effect:
  "add_constraints w =
     (if duplicate_free w
      then Inr (w\<lparr>constraints := foldl (\<lambda>cs c. put_constraint c cs) (constraints w)
                                    upgrade_constraints,
                 executed := executed w @
                   map (\<lambda>(tbl, cname, cols). CreateUnique tbl cname cols) upgrade_constraints\<rparr>)
      else Inl IntegrityError)"
proof -
  have c1: "\<And>w. create_unique_constraint ''pipeline'' ''unique_pipeline_name_in_workspace''
          [''name'', ''workspace_id''] w =
     (if distinct (name_scope_pairs (pipeline w))
      then Inr (w\<lparr>constraints := put_constraint (''pipeline'',
                   ''unique_pipeline_name_in_workspace'', [''name'', ''workspace_id''])
                   (constraints w),
                 executed := executed w @ [CreateUnique ''pipeline''
                   ''unique_pipeline_name_in_workspace'' [''name'', ''workspace_id'']]\<rparr>)
      else Inl IntegrityError)"
    by (subst create_unique_constraint_known [of _ "[''id'', ''name'', ''workspace_id'']"])
       (simp_all add: table_columns_def key_tuples_simple)
  have c2: "\<And>w. create_unique_constraint ''pipeline_run'' ''unique_run_name_in_workspace''
          [''name'', ''workspace_id''] w =
     (if distinct (name_scope_pairs (pipeline_run w))
      then Inr (w\<lparr>constraints := put_constraint (''pipeline_run'',
                   ''unique_run_name_in_workspace'', [''name'', ''workspace_id''])
                   (constraints w),
                 executed := executed w @ [CreateUnique ''pipeline_run''
                   ''unique_run_name_in_workspace'' [''name'', ''workspace_id'']]\<rparr>)
      else Inl IntegrityError)"
    by (subst create_unique_constraint_known [of _ "[''id'', ''name'', ''workspace_id'']"])
       (simp_all add: table_columns_def key_tuples_simple)
  have c3: "\<And>w. create_unique_constraint ''model'' ''unique_model_name_in_workspace''
          [''name'', ''workspace_id''] w =
     (if distinct (name_scope_pairs (model w))
      then Inr (w\<lparr>constraints := put_constraint (''model'',
                   ''unique_model_name_in_workspace'', [''name'', ''workspace_id''])
                   (constraints w),
                 executed := executed w @ [CreateUnique ''model''
                   ''unique_model_name_in_workspace'' [''name'', ''workspace_id'']]\<rparr>)
      else Inl IntegrityError)"
    by (subst create_unique_constraint_known [of _ "[''id'', ''name'', ''workspace_id'']"])
       (simp_all add: table_columns_def key_tuples_simple)
  have c4: "\<And>w. create_unique_constraint ''model_version'' ''unique_version_for_model_id''
          [''name'', ''model_id''] w =
     (if distinct (name_group_pairs (model_version w))
      then Inr (w\<lparr>constraints := put_constraint (''model_version'',
                   ''unique_version_for_model_id'', [''name'', ''model_id''])
                   (constraints w),
                 executed := executed w @ [CreateUnique ''model_version''
                   ''unique_version_for_model_id'' [''name'', ''model_id'']]\<rparr>)
      else Inl IntegrityError)"
    by (subst create_unique_constraint_known [of _ "[''id'', ''name'', ''number'', ''model_id'']"])
       (simp_all add: table_columns_def key_tuples_versions)
  have c5: "\<And>w. create_unique_constraint ''model_version''
          ''unique_version_number_for_model_id'' [''number'', ''model_id''] w =
     (if distinct (number_group_pairs (model_version w))
      then Inr (w\<lparr>constraints := put_constraint (''model_version'',
                   ''unique_version_number_for_model_id'', [''number'', ''model_id''])
                   (constraints w),
                 executed := executed w @ [CreateUnique ''model_version''
                   ''unique_version_number_for_model_id'' [''number'', ''model_id'']]\<rparr>)
      else Inl IntegrityError)"
    by (subst create_unique_constraint_known [of _ "[''id'', ''name'', ''number'', ''model_id'']"])
       (simp_all add: table_columns_def key_tuples_versions)
  show ?thesis
    unfolding add_constraints_def c1 c2 c3 c4 c5
    by (simp add: then_do_def duplicate_free_def upgrade_constraints_def)
qed

lemma put_constraint_new:
  "(fst c, fst (snd c)) \<notin> set (map (\<lambda>d. (fst d, fst (snd d))) cs) \<Longrightarrow>
     put_constraint c cs = cs @ [c]"
  by (simp add: put_constraint_def)

lemma upgrade_constraints_new:
  assumes "\<forall>c \<in> set upgrade_constraints.
             (fst c, fst (snd c)) \<notin> set (map (\<lambda>d. (fst d, fst (snd d))) cs)"
  shows "foldl (\<lambda>cs c. put_constraint c cs) cs upgrade_constraints = cs @ upgrade_constraints"
  using assms by (simp add: upgrade_constraints_def put_constraint_new)

text \<open>
  C8, as amended. \<open>upgrade\<close> first runs the whole duplicate resolution, which executes
  update statements only and leaves the constraints alone. It then creates five unique
  constraints, in this order: (name, workspace_id) on \<open>pipeline\<close>, on \<open>pipeline_run\<close> and
  on \<open>model\<close>, then (name, model_id) and (number, model_id) on \<open>model_version\<close>. The five
  are created when the resolution left no duplicate pair, and are then added to the
  constraints of a store that has none of them; when a duplicate pair is left, the
  creation fails and \<open>upgrade\<close> raises.
\<close>

theorem upgrade_adds_constraints_after_resolution:
  "\<exists>w1. resolve_duplicate_entities w = Inr w1 \<and>
        constraints w1 = constraints w \<and>
        executed w1 = executed w @ run_updates w \<and>
        list_all is_update (run_updates w) \<and>
        upgrade_constraints =
          [(''pipeline'', ''unique_pipeline_name_in_workspace'', [''name'', ''workspace_id'']),
           (''pipeline_run'', ''unique_run_name_in_workspace'', [''name'', ''workspace_id'']),
           (''model'', ''unique_model_name_in_workspace'', [''name'', ''workspace_id'']),
           (''model_version'', ''unique_version_for_model_id'', [''name'', ''model_id'']),
           (''model_version'', ''unique_version_number_for_model_id'',
            [''number'', ''model_id''])] \<and>
        (duplicate_free w1 \<longrightarrow>
           upgrade w =
             Inr (w1\<lparr>constraints := foldl (\<lambda>cs c. put_constraint c cs) (constraints w)
                                      upgrade_constraints,
                    executed := executed w @ run_updates w @
                      map (\<lambda>(tbl, cname, cols). CreateUnique tbl cname cols)
                        upgrade_constraints\<rparr>)) \<and>
        (\<not> duplicate_free w1 \<longrightarrow> upgrade w = Inl IntegrityError) \<and>
        ((\<forall>c \<in> set upgrade_constraints.
             (fst c, fst (snd c)) \<notin> set (map (\<lambda>d. (fst d, fst (snd d))) (constraints w))) \<longrightarrow>
           foldl (\<lambda>cs c. put_constraint c cs) (constraints w) upgrade_constraints =
             constraints w @ upgrade_constraints)"
proof -
  obtain w1 where r: "resolve_duplicate_entities w = Inr w1"
    by (simp add: resolve_duplicate_entities_effect)
  have c: "constraints w1 = constraints w" and e: "executed w1 = executed w @ run_updates w"
    using r by (auto simp: resolve_duplicate_entities_effect)
  have u: "upgrade w = add_constraints w1"
    by (simp add: upgrade_def r then_do_def)
  have ok: "duplicate_free w1 \<longrightarrow>
           upgrade w =
             Inr (w1\<lparr>constraints := foldl (\<lambda>cs c. put_constraint c cs) (constraints w)
                                      upgrade_constraints,
                    executed := executed w @ run_updates w @
                      map (\<lambda>(tbl, cname, cols). CreateUnique tbl cname cols)
                        upgrade_constraints\<rparr>)"
    by (simp add: u add_constraints_effect c e)
  have bad: "\<not> duplicate_free w1 \<longrightarrow> upgrade w = Inl IntegrityError"
    by (simp add: u add_constraints_effect)
  have new: "(\<forall>c \<in> set upgrade_constraints.
             (fst c, fst (snd c)) \<notin> set (map (\<lambda>d. (fst d, fst (snd d))) (constraints w))) \<longrightarrow>
           foldl (\<lambda>cs c. put_constraint c cs) (constraints w) upgrade_constraints =
             constraints w @ upgrade_constraints"
    using upgrade_constraints_new by blast
  show ?thesis
    using r c e ok bad new run_updates_are_updates [of w]
    by (intro exI [of _ w1]) (simp add: upgrade_constraints_def)
qed

theorem upgrade_adds_constraints_after_resolution_witness:
  "resolve_duplicate_entities scenario_a =
     Inr (scenario_a\<lparr>pipeline :=
            [\<lparr>e_id = ''a1'', e_name = ''p'', e_workspace_id = ''ws1''\<rparr>,
             \<lparr>e_id = ''b2xxxxyy'', e_name = ''p_b2xxxx'', e_workspace_id = ''ws1''\<rparr>],
          executed := [UpdateName Pipeline ''b2xxxxyy'' ''p_b2xxxx''],
          warnings := [(simple_warning, [''pipeline'', ''p'', ''p_b2xxxx''])]\<rparr>) \<and>
   duplicate_free
     (scenario_a\<lparr>pipeline :=
            [\<lparr>e_id = ''a1'', e_name = ''p'', e_workspace_id = ''ws1''\<rparr>,
             \<lparr>e_id = ''b2xxxxyy'', e_name = ''p_b2xxxx'', e_workspace_id = ''ws1''\<rparr>],
          executed := [UpdateName Pipeline ''b2xxxxyy'' ''p_b2xxxx''],
          warnings := [(simple_warning, [''pipeline'', ''p'', ''p_b2xxxx''])]\<rparr>) \<and>
   upgrade scenario_a = Inr scenario_a_upgraded \<and>
   constraints scenario_a_upgraded = constraints scenario_a @ upgrade_constraints"
proof -
  define w1 where "w1 = scenario_a\<lparr>pipeline :=
            [\<lparr>e_id = ''a1'', e_name = ''p'', e_workspace_id = ''ws1''\<rparr>,
             \<lparr>e_id = ''b2xxxxyy'', e_name = ''p_b2xxxx'', e_workspace_id = ''ws1''\<rparr>],
          executed := [UpdateName Pipeline ''b2xxxxyy'' ''p_b2xxxx''],
          warnings := [(simple_warning, [''pipeline'', ''p'', ''p_b2xxxx''])]\<rparr>"
  have r: "resolve_duplicate_entities scenario_a = Inr w1"
    by (simp add: run_simps scenario_a_def w1_def)
  have d: "duplicate_free w1"
    by (simp add: w1_def scenario_a_def duplicate_free_def name_scope_pairs_def
        name_group_pairs_def number_group_pairs_def)
  have new: "\<forall>c \<in> set upgrade_constraints.
        (fst c, fst (snd c)) \<notin> set (map (\<lambda>d. (fst d, fst (snd d))) (constraints scenario_a))"
    by (simp add: scenario_a_def)
  obtain w1' where h: "resolve_duplicate_entities scenario_a = Inr w1'"
      "executed w1' = executed scenario_a @ run_updates scenario_a"
      "duplicate_free w1' \<longrightarrow>
         upgrade scenario_a =
           Inr (w1'\<lparr>constraints := foldl (\<lambda>cs c. put_constraint c cs) (constraints scenario_a)
                                      upgrade_constraints,
                    executed := executed scenario_a @ run_updates scenario_a @
                      map (\<lambda>(tbl, cname, cols). CreateUnique tbl cname cols)
                        upgrade_constraints\<rparr>)"
      "(\<forall>c \<in> set upgrade_constraints.
          (fst c, fst (snd c)) \<notin> set (map (\<lambda>d. (fst d, fst (snd d))) (constraints scenario_a))) \<longrightarrow>
        foldl (\<lambda>cs c. put_constraint c cs) (constraints scenario_a) upgrade_constraints =
          constraints scenario_a @ upgrade_constraints"
    using upgrade_adds_constraints_after_resolution [of scenario_a] by blast
  have same: "w1' = w1" using r h(1) by simp
  have cs: "foldl (\<lambda>cs c. put_constraint c cs) (constraints scenario_a) upgrade_constraints =
          constraints scenario_a @ upgrade_constraints"
    using h(4) new by blast
  have "upgrade scenario_a =
           Inr (w1\<lparr>constraints := constraints scenario_a @ upgrade_constraints,
                    executed := executed w1 @
                      map (\<lambda>(tbl, cname, cols). CreateUnique tbl cname cols)
                        upgrade_constraints\<rparr>)"
    using h(2,3) d cs unfolding same by simp
  then have u: "upgrade scenario_a = Inr scenario_a_upgraded"
    by (simp add: w1_def scenario_a_def scenario_a_upgraded_def upgrade_constraints_def)
  have c: "constraints scenario_a_upgraded = constraints scenario_a @ upgrade_constraints"
    by (simp add: scenario_a_def scenario_a_upgraded_def upgrade_constraints_def)
  show ?thesis
    using r d u c unfolding w1_def by blast
qed

text \<open>
  C8 as stated fails on the count: on the empty store \<open>upgrade\<close> adds five constraints,
  not four.
\<close>

theorem upgrade_four_constraints_counterexample:
  "upgrade empty_store =
     Inr (empty_store\<lparr>constraints := upgrade_constraints,
            executed := map (\<lambda>(tbl, cname, cols). CreateUnique tbl cname cols)
                          upgrade_constraints\<rparr>) \<and>
   length upgrade_constraints = length (constraints empty_store) + 5 \<and>
   length upgrade_constraints \<noteq> length (constraints empty_store) + 4"
  by (simp add: run_simps empty_store_def upgrade_constraints_def)

text \<open>
  When the resolution leaves a duplicate pair, the creation of the constraint on that
  table fails: the stores of the counterexamples to C1 and C2 make \<open>upgrade\<close> raise.
\<close>

lemma upgrade_raises_on_leftover_duplicates:
  "upgrade suffix_clash = Inl IntegrityError \<and> upgrade numeric_clash = Inl IntegrityError"
  by (simp add: run_simps suffix_clash_def numeric_clash_def)

text \<open>
  C9. \<open>downgrade\<close> executes five drop statements and nothing else; the constraints it
  drops are those \<open>upgrade\<close> creates, in reverse order of creation; it removes exactly
  those from the constraints of the store; and it leaves every row of the four tables as
  it is, so a name or number rewritten by \<open>upgrade\<close> stays rewritten.
\<close>

theorem downgrade_drops_in_reverse_and_keeps_rows:
  assumes "add_constraints w0 = Inr w1"
  shows "executed (downgrade w) = executed w @
     [DropConstraint ''model_version'' ''unique_version_number_for_model_id'',
      DropConstraint ''model_version'' ''unique_version_for_model_id'',
      DropConstraint ''model'' ''unique_model_name_in_workspace'',
      DropConstraint ''pipeline_run'' ''unique_run_name_in_workspace'',
      DropConstraint ''pipeline'' ''unique_pipeline_name_in_workspace''] \<and>
   concat (map dropped (drop (length (executed w)) (executed (downgrade w)))) =
     rev (concat (map created (drop (length (executed w0)) (executed w1)))) \<and>
   constraints (downgrade w) =
     filter (\<lambda>(tbl, cname, cols).
        (tbl, cname) \<notin> set (concat (map created
           (drop (length (executed w0)) (executed w1))))) (constraints w) \<and>
   pipeline_run (downgrade w) = pipeline_run w \<and>
   pipeline (downgrade w) = pipeline w \<and>
   model (downgrade w) = model w \<and>
   model_version (downgrade w) = model_version w \<and>
   warnings (downgrade w) = warnings w"
proof -
  have e: "executed w1 = executed w0 @
      map (\<lambda>(tbl, cname, cols). CreateUnique tbl cname cols) upgrade_constraints"
    using assms by (auto simp: add_constraints_effect split: if_splits)
  have cr: "concat (map created (drop (length (executed w0)) (executed w1))) =
      [(''pipeline'', ''unique_pipeline_name_in_workspace''),
       (''pipeline_run'', ''unique_run_name_in_workspace''),
       (''model'', ''unique_model_name_in_workspace''),
       (''model_version'', ''unique_version_for_model_id''),
       (''model_version'', ''unique_version_number_for_model_id'')]"
    by (simp add: e upgrade_constraints_def)
  have c: "constraints (downgrade w) =
     filter (\<lambda>(tbl, cname, cols).
        (tbl, cname) \<notin> set (concat (map created
           (drop (length (executed w0)) (executed w1))))) (constraints w)"
    unfolding cr by (auto simp: downgrade_def drop_constraint_def intro!: filter_cong)
  show ?thesis
    unfolding c unfolding cr
    by (simp add: downgrade_def drop_constraint_def)
qed

theorem downgrade_drops_in_reverse_and_keeps_rows_witness:
  "upgrade scenario_a = Inr scenario_a_upgraded \<and>
   add_constraints
     (scenario_a\<lparr>pipeline :=
            [\<lparr>e_id = ''a1'', e_name = ''p'', e_workspace_id = ''ws1''\<rparr>,
             \<lparr>e_id = ''b2xxxxyy'', e_name = ''p_b2xxxx'', e_workspace_id = ''ws1''\<rparr>],
          executed := [UpdateName Pipeline ''b2xxxxyy'' ''p_b2xxxx''],
          warnings := [(simple_warning, [''pipeline'', ''p'', ''p_b2xxxx''])]\<rparr>) =
     Inr scenario_a_upgraded \<and>
   executed (downgrade scenario_a_upgraded) = executed scenario_a_upgraded @
     [DropConstraint ''model_version'' ''unique_version_number_for_model_id'',
      DropConstraint ''model_version'' ''unique_version_for_model_id'',
      DropConstraint ''model'' ''unique_model_name_in_workspace'',
      DropConstraint ''pipeline_run'' ''unique_run_name_in_workspace'',
      DropConstraint ''pipeline'' ''unique_pipeline_name_in_workspace''] \<and>
   constraints (downgrade scenario_a_upgraded) = [] \<and>
   pipeline (downgrade scenario_a_upgraded) =
     [\<lparr>e_id = ''a1'', e_name = ''p'', e_workspace_id = ''ws1''\<rparr>,
      \<lparr>e_id = ''b2xxxxyy'', e_name = ''p_b2xxxx'', e_workspace_id = ''ws1''\<rparr>] \<and>
   pipeline (downgrade scenario_a_upgraded) \<noteq> pipeline scenario_a"
proof -
  have u: "upgrade scenario_a = Inr scenario_a_upgraded"
    by (simp add: run_simps scenario_a_def scenario_a_upgraded_def)
  have a: "add_constraints
     (scenario_a\<lparr>pipeline :=
            [\<lparr>e_id = ''a1'', e_name = ''p'', e_workspace_id = ''ws1''\<rparr>,
             \<lparr>e_id = ''b2xxxxyy'', e_name = ''p_b2xxxx'', e_workspace_id = ''ws1''\<rparr>],
          executed := [UpdateName Pipeline ''b2xxxxyy'' ''p_b2xxxx''],
          warnings := [(simple_warning, [''pipeline'', ''p'', ''p_b2xxxx''])]\<rparr>) =
     Inr scenario_a_upgraded"
    by (simp add: run_simps scenario_a_def scenario_a_upgraded_def)
  show ?thesis
    using u a downgrade_drops_in_reverse_and_keeps_rows [OF a, of scenario_a_upgraded]
    by (simp add: scenario_a_upgraded_def scenario_a_def)
qed

subsection \<open>Pass 2 at one staged row\<close>

lemma fix_all_append:
  "fix_all (A @ B) eu w =
     (case fix_all A eu w of Inl e \<Rightarrow> Inl e | Inr (w1, eu1) \<Rightarrow> fix_all B eu1 w1)"
proof (induction A arbitrary: eu w)
  case Nil
  then show ?case by simp
next
  case (Cons u A)
  show ?case
  proof (cases "fix_row u eu w")
    case (Inl e)
    then show ?thesis by simp
  next
    case (Inr p)
    obtain w1 eu1 where p: "p = (w1, eu1)" by (cases p) auto
    show ?thesis using Cons.IH [of eu1 w1] by (simp add: Inr p)
  qed
qed

lemma numbers_fixed_grows: "eu m \<subseteq> numbers_fixed todo eu m"
proof (induction todo arbitrary: eu)
  case Nil
  then show ?case by simp
next
  case (Cons u todo)
  have "eu m \<subseteq> snd (plan_row u eu) m" by (rule plan_row_grows)
  also have "\<dots> \<subseteq> numbers_fixed todo (snd (plan_row u eu)) m" by (rule Cons.IH)
  finally show ?case by simp
qed

lemma plan_row_finite:
  assumes "\<And>m. finite (eu m)"
  shows "finite (snd (plan_row u eu) m)"
  using assms by (cases u) (auto simp: plan_row_def Let_def)

lemma numbers_fixed_finite:
  assumes "\<And>m. finite (eu m)"
  shows "finite (numbers_fixed todo eu m)"
  using assms
proof (induction todo arbitrary: eu)
  case Nil
  then show ?case by simp
next
  case (Cons u todo)
  have "\<And>m. finite (snd (plan_row u eu) m)" using Cons.prems by (rule plan_row_finite)
  then have "finite (numbers_fixed todo (snd (plan_row u eu)) m)" by (rule Cons.IH)
  then show ?case by simp
qed

lemma version_fixes_append:
  "version_fixes (A @ B) eu = version_fixes A eu @ version_fixes B (numbers_fixed A eu)"
  by (induction A arbitrary: eu) simp_all

lemma version_fixes_ids: "map fst (version_fixes todo eu) = map fst todo"
  by (induction todo arbitrary: eu) simp_all

lemma flagged_ids:
  assumes "distinct (map fst rows)"
  shows "distinct (map fst (flagged rows en eu))"
  using assms
proof (induction rows arbitrary: en eu)
  case Nil
  then show ?case by simp
next
  case (Cons a rest)
  obtain rid name number m where a: "a = (rid, name, number, m)" by (cases a) auto
  define en' where "en' = en(m := insert name (en m))"
  define eu' where "eu' = eu(m := insert number (eu m))"
  have d: "distinct (map fst (flagged rest en' eu'))"
    using Cons.prems by (intro Cons.IH) simp
  have "fst ` set (flagged rest en' eu') \<subseteq> fst ` set rest"
  proof
    fix x assume "x \<in> fst ` set (flagged rest en' eu')"
    then obtain v where v: "v \<in> set (flagged rest en' eu')" "x = fst v" by blast
    obtain i n k g p q where "v = (i, n, k, g, p, q)" by (cases v) auto
    then have "(i, n, k, g) \<in> set rest" using v(1) flagged_rows by blast
    then show "x \<in> fst ` set rest" using v(2) \<open>v = (i, n, k, g, p, q)\<close> by force
  qed
  then have "rid \<notin> fst ` set (flagged rest en' eu')"
    using Cons.prems by (auto simp: a)
  then show ?case using d by (simp add: a en'_def eu'_def)
qed

lemma fold_fix_at:
  assumes "\<And>h. h \<in> set A \<Longrightarrow> fst h \<noteq> v_id r"
    and "\<And>h. h \<in> set B \<Longrightarrow> fst h \<noteq> v_id r"
  shows "foldl (\<lambda>r h. (\<lambda>(rid, old, vals). set_values_where rid vals) h r) r
           (A @ (v_id r, old, vals) # B) =
         set_values_where (v_id r) vals r"
proof -
  let ?g = "\<lambda>h r. (\<lambda>(rid, old, vals). set_values_where rid vals) h r"
  have id_kept: "\<And>x. v_id (set_values_where (v_id r) vals x) = v_id x"
    by (simp add: set_values_where_def Let_def split: option.splits)
  have a: "foldl (\<lambda>r h. ?g h r) r A = r"
  proof (rule fold_row_miss)
    fix h assume "h \<in> set A"
    then have "fst h \<noteq> v_id r" by (rule assms(1))
    then show "?g h r = r" by (auto simp: set_values_where_def split_def)
  qed
  have b: "foldl (\<lambda>r h. ?g h r) (set_values_where (v_id r) vals r) B =
           set_values_where (v_id r) vals r"
  proof (rule fold_row_miss)
    fix h assume "h \<in> set B"
    then have "fst h \<noteq> v_id r" by (rule assms(2))
    then have "fst h \<noteq> v_id (set_values_where (v_id r) vals r)" by (simp add: id_kept)
    then show "?g h (set_values_where (v_id r) vals r) = set_values_where (v_id r) vals r"
      by (simp add: set_values_where_def [of "fst h"] split_def)
  qed
  show ?thesis by (simp add: a b)
qed

lemma apply_values_map:
  "apply_values fs T =
     map (\<lambda>r. foldl (\<lambda>r h. (\<lambda>(rid, old, vals). set_values_where rid vals) h r) r fs) T"
  by (simp add: apply_values_def set_values_where_fold foldl_map_rows)

lemma staged_row_run:
  assumes det: "detect (select_versions (model_version w)) (\<lambda>_. {}) (\<lambda>_. {}) [] =
             (needs_update, existing_names, existing_numbers)"
    and pos: "needs_update = before @ (rid, name, number, model_id, nn, nk) # after"
    and ids: "distinct (map v_id (model_version w))"
  defines "u \<equiv> (rid, name, number, model_id, nn, nk)"
    and "seen \<equiv> numbers_fixed before existing_numbers"
    and "ws \<equiv> resolve_simple_entities w"
  shows "\<exists>w1 w'.
      fix_all before existing_numbers ws = Inr (w1, seen) \<and>
      fix_all (before @ [u]) existing_numbers ws = fix_row u seen w1 \<and>
      finite (seen model_id) \<and> number \<in> seen model_id \<and>
      resolve_duplicate_entities w = Inr w' \<and>
      (\<exists>r \<in> set (model_version w'). v_id r = rid) \<and>
      (\<forall>r' \<in> set (model_version w'). v_id r' = rid \<longrightarrow>
         (\<exists>r \<in> set (model_version w). v_id r = rid \<and> v_name r = name \<and>
            r' = set_values_where rid (fst (plan_row u seen)) r))"
proof -
  let ?rows = "select_versions (model_version w)"
  have nu: "needs_update = flagged ?rows (\<lambda>_. {}) (\<lambda>_. {})"
    and eu: "existing_numbers = numbers_after ?rows (\<lambda>_. {})"
    using det by (simp_all add: detect_effect)
  have fin: "\<And>m. finite (existing_numbers m)"
    unfolding eu by (rule numbers_after_finite) simp
  have u_in: "u \<in> set needs_update" by (simp add: pos u_def)
  have read: "(rid, name, number, model_id) \<in> set ?rows"
    using u_in flagged_rows unfolding nu u_def by blast
  have cov: "\<forall>v \<in> set needs_update. existing_numbers (fst (snd (snd (snd v)))) \<noteq> {}"
    unfolding nu eu using flagged_covered by blast
  then have cov_before: "\<forall>v \<in> set before. existing_numbers (fst (snd (snd (snd v)))) \<noteq> {}"
    by (simp add: pos)
  define w1 where "w1 = ws\<lparr>model_version :=
      apply_values (version_fixes before existing_numbers) (model_version ws),
    executed := executed ws @
      map (\<lambda>(rid, old, vals). UpdateVersion rid (fst vals) (snd vals))
        (version_fixes before existing_numbers),
    warnings := warnings ws @
      concat (map version_audit (version_fixes before existing_numbers))\<rparr>"
  have f1: "fix_all before existing_numbers ws = Inr (w1, seen)"
    unfolding w1_def seen_def by (rule fix_all_effect [OF cov_before])
  have f2: "fix_all (before @ [u]) existing_numbers ws = fix_row u seen w1"
    by (simp add: fix_all_append f1 split: sum.splits prod.splits)
  have number_in: "number \<in> existing_numbers model_id"
    unfolding eu using read by (rule numbers_after_rows)
  have s_fin: "finite (seen model_id)"
    unfolding seen_def using fin by (rule numbers_fixed_finite)
  have s_in: "number \<in> seen model_id"
    unfolding seen_def using number_in numbers_fixed_grows by blast
  obtain w' where r: "resolve_duplicate_entities w = Inr w'"
    by (simp add: resolve_duplicate_entities_effect)
  have mv: "model_version w' = apply_values (planned_fixes w) (model_version w)"
    using r by (auto simp: resolve_duplicate_entities_effect)
  have fx: "planned_fixes w =
      version_fixes before existing_numbers @
      (rid, name, fst (plan_row u seen)) #
      version_fixes after (snd (plan_row u seen))"
    unfolding planned_fixes_def nu [symmetric] eu [symmetric] pos
    by (simp add: version_fixes_append u_def seen_def)
  have dist: "distinct (map fst needs_update)"
    unfolding nu using ids by (intro flagged_ids) (simp add: select_versions_def comp_def)
  have not_before: "\<And>h. h \<in> set (version_fixes before existing_numbers) \<Longrightarrow> fst h \<noteq> rid"
  proof -
    fix h assume "h \<in> set (version_fixes before existing_numbers)"
    then have "fst h \<in> set (map fst (version_fixes before existing_numbers))" by simp
    then have "fst h \<in> set (map fst before)" by (simp only: version_fixes_ids)
    then show "fst h \<noteq> rid" using dist by (auto simp: pos)
  qed
  have not_after: "\<And>h. h \<in> set (version_fixes after (snd (plan_row u seen))) \<Longrightarrow> fst h \<noteq> rid"
  proof -
    fix h assume "h \<in> set (version_fixes after (snd (plan_row u seen)))"
    then have "fst h \<in> set (map fst (version_fixes after (snd (plan_row u seen))))" by simp
    then have "fst h \<in> set (map fst after)" by (simp only: version_fixes_ids)
    then show "fst h \<noteq> rid" using dist by (auto simp: pos)
  qed
  have row: "foldl (\<lambda>r h. (\<lambda>(rid, old, vals). set_values_where rid vals) h r) r (planned_fixes w) =
             set_values_where rid (fst (plan_row u seen)) r"
    if "v_id r = rid" for r
    unfolding fx using fold_fix_at [of "version_fixes before existing_numbers" r
        "version_fixes after (snd (plan_row u seen))" name "fst (plan_row u seen)"]
      not_before not_after that by simp
  have id_kept: "v_id (foldl (\<lambda>r h. (\<lambda>(rid, old, vals). set_values_where rid vals) h r) r fs) =
                 v_id r" for r fs
    by (induction fs arbitrary: r)
       (simp_all add: set_values_where_def split_def Let_def split: option.splits)
  obtain r0 where r0: "r0 \<in> set (model_version w)" "v_id r0 = rid" "v_name r0 = name"
    using read by (auto simp: select_versions_def)
  have name_of: "v_name r = name" if "r \<in> set (model_version w)" "v_id r = rid" for r
  proof -
    have "inj_on v_id (set (model_version w))" using ids by (simp add: distinct_map)
    then have "r = r0" using that r0 by (auto dest: inj_onD)
    then show ?thesis using r0 by simp
  qed
  have ex: "\<exists>r \<in> set (model_version w'). v_id r = rid"
    unfolding mv apply_values_map using r0 id_kept by force
  have all: "\<forall>r' \<in> set (model_version w'). v_id r' = rid \<longrightarrow>
         (\<exists>r \<in> set (model_version w). v_id r = rid \<and> v_name r = name \<and>
            r' = set_values_where rid (fst (plan_row u seen)) r)"
  proof (intro ballI impI)
    fix r' assume "r' \<in> set (model_version w')" and i: "v_id r' = rid"
    then obtain r where rr: "r \<in> set (model_version w)"
      "r' = foldl (\<lambda>r h. (\<lambda>(rid, old, vals). set_values_where rid vals) h r) r (planned_fixes w)"
      unfolding mv apply_values_map by auto
    have "v_id r' = v_id r" unfolding rr(2) by (rule id_kept)
    then have "v_id r = rid" using i by simp
    then show "\<exists>r \<in> set (model_version w). v_id r = rid \<and> v_name r = name \<and>
            r' = set_values_where rid (fst (plan_row u seen)) r"
      using rr row name_of by blast
  qed
  show ?thesis
    using f1 f2 s_fin s_in r ex all by blast
qed

text \<open>
  C5. In a run of the resolution on model versions with pairwise distinct ids, take any
  row that pass 1 staged and whose name is the decimal rendering of its number, whatever
  its two flags are. When pass 2 reaches it, after the rows staged before it, the set
  \<open>seen\<close> of its group is finite and holds the number of the row, so
  \<open>next = max(seen) + 1\<close> is defined and new. The step of pass 2 sets \<open>number\<close> to
  \<open>next\<close> and \<open>name\<close> to \<open>str(next)\<close> in one update, logs the rename and adds
  \<open>next\<close> to the set of the group; and the row has this name and this number when the
  resolution ends.
\<close>

theorem numeric_form_rows_get_name_and_number_together:
  assumes "detect (select_versions (model_version w)) (\<lambda>_. {}) (\<lambda>_. {}) [] =
             (needs_update, existing_names, existing_numbers)"
    and "needs_update =
           before @ (rid, name, number, model_id, needs_new_name, needs_new_number) # after"
    and "str_int number = name"
    and "distinct (map v_id (model_version w))"
  shows "\<exists>w1 seen next_version w'.
      fix_all before existing_numbers (resolve_simple_entities w) = Inr (w1, seen) \<and>
      finite (seen model_id) \<and> number \<in> seen model_id \<and>
      next_version = Max (seen model_id) + 1 \<and> next_version \<notin> seen model_id \<and>
      fix_all (before @ [(rid, name, number, model_id, needs_new_name, needs_new_number)])
          existing_numbers (resolve_simple_entities w) =
        Inr (w1\<lparr>model_version :=
                  map (\<lambda>r. if v_id r = rid
                            then r\<lparr>v_name := str_int next_version, v_number := next_version\<rparr>
                            else r) (model_version w1),
                executed := executed w1 @
                  [UpdateVersion rid (Some (str_int next_version)) (Some next_version)],
                warnings := warnings w1 @ [(version_warning, [name, str_int next_version])]\<rparr>,
             seen(model_id := insert next_version (seen model_id))) \<and>
      resolve_duplicate_entities w = Inr w' \<and>
      (\<exists>r \<in> set (model_version w'). v_id r = rid) \<and>
      (\<forall>r \<in> set (model_version w'). v_id r = rid \<longrightarrow>
         v_name r = str_int next_version \<and> v_number r = next_version)"
proof -
  define u where "u = (rid, name, number, model_id, needs_new_name, needs_new_number)"
  define seen where "seen = numbers_fixed before existing_numbers"
  define k where "k = Max (seen model_id) + 1"
  obtain w1 w' where h:
    "fix_all before existing_numbers (resolve_simple_entities w) = Inr (w1, seen)"
    "fix_all (before @ [u]) existing_numbers (resolve_simple_entities w) = fix_row u seen w1"
    "finite (seen model_id)" "number \<in> seen model_id"
    "resolve_duplicate_entities w = Inr w'"
    "\<exists>r \<in> set (model_version w'). v_id r = rid"
    "\<forall>r' \<in> set (model_version w'). v_id r' = rid \<longrightarrow>
         (\<exists>r \<in> set (model_version w). v_id r = rid \<and> v_name r = name \<and>
            r' = set_values_where rid (fst (plan_row u seen)) r)"
    using staged_row_run [OF assms(1,2,4)] unfolding u_def seen_def by blast
  have ne: "seen model_id \<noteq> {}" using h(4) by blast
  have step: "k \<notin> seen model_id \<and>
     fix_row u seen w1 =
       Inr (w1\<lparr>model_version :=
                 map (\<lambda>r. if v_id r = rid then r\<lparr>v_name := str_int k, v_number := k\<rparr> else r)
                   (model_version w1),
               executed := executed w1 @ [UpdateVersion rid (Some (str_int k)) (Some k)],
               warnings := warnings w1 @ [(version_warning, [name, str_int k])]\<rparr>,
            seen(model_id := insert k (seen model_id)))"
    unfolding u_def
    by (rule fix_row_numeric_step
        [of number name seen model_id k rid needs_new_name needs_new_number w1,
         OF assms(3) h(3) ne k_def])
  have vals: "fst (plan_row u seen) = (Some (str_int k), Some k)"
    using assms(3) by (simp add: plan_row_def u_def k_def Let_def)
  have rows: "\<forall>r \<in> set (model_version w'). v_id r = rid \<longrightarrow>
         v_name r = str_int k \<and> v_number r = k"
  proof (intro ballI impI)
    fix r' assume "r' \<in> set (model_version w')" "v_id r' = rid"
    then obtain r where r: "v_id r = rid" "r' = set_values_where rid (fst (plan_row u seen)) r"
      using h(7) by blast
    show "v_name r' = str_int k \<and> v_number r' = k"
      unfolding r(2) vals using r(1) by (simp add: set_values_both)
  qed
  have f2: "fix_all (before @ [(rid, name, number, model_id, needs_new_name, needs_new_number)])
          existing_numbers (resolve_simple_entities w) =
        Inr (w1\<lparr>model_version :=
                  map (\<lambda>r. if v_id r = rid then r\<lparr>v_name := str_int k, v_number := k\<rparr> else r)
                    (model_version w1),
                executed := executed w1 @ [UpdateVersion rid (Some (str_int k)) (Some k)],
                warnings := warnings w1 @ [(version_warning, [name, str_int k])]\<rparr>,
             seen(model_id := insert k (seen model_id)))"
    using h(2) step [THEN conjunct2] unfolding u_def by (rule trans)
  show ?thesis
    by (rule exI [of _ w1], rule exI [of _ seen], rule exI [of _ k], rule exI [of _ w'])
       (intro conjI h(1) h(3) h(4) k_def step [THEN conjunct1] f2 h(5) h(6) rows)
qed

text \<open>
  C6. In a run of the resolution on model versions with pairwise distinct ids, take any
  row that pass 1 staged for its number only and whose name is not the decimal rendering
  of its number. When pass 2 reaches it, the step sets only \<open>number\<close>, to
  \<open>max(seen) + 1\<close> of the set of its group at that moment, and adds that value to the
  set; the row has the name it was read with and this number when the resolution ends.
\<close>

theorem custom_name_number_only_rows_keep_name:
  assumes "detect (select_versions (model_version w)) (\<lambda>_. {}) (\<lambda>_. {}) [] =
             (needs_update, existing_names, existing_numbers)"
    and "needs_update = before @ (rid, name, number, model_id, False, True) # after"
    and "str_int number \<noteq> name"
    and "distinct (map v_id (model_version w))"
  shows "\<exists>w1 seen next_version w'.
      fix_all before existing_numbers (resolve_simple_entities w) = Inr (w1, seen) \<and>
      finite (seen model_id) \<and> number \<in> seen model_id \<and>
      next_version = Max (seen model_id) + 1 \<and> next_version \<notin> seen model_id \<and>
      fix_all (before @ [(rid, name, number, model_id, False, True)])
          existing_numbers (resolve_simple_entities w) =
        Inr (w1\<lparr>model_version :=
                  map (\<lambda>r. if v_id r = rid then r\<lparr>v_number := next_version\<rparr> else r)
                    (model_version w1),
                executed := executed w1 @ [UpdateVersion rid None (Some next_version)]\<rparr>,
             seen(model_id := insert next_version (seen model_id))) \<and>
      resolve_duplicate_entities w = Inr w' \<and>
      (\<exists>r \<in> set (model_version w'). v_id r = rid) \<and>
      (\<forall>r \<in> set (model_version w'). v_id r = rid \<longrightarrow>
         v_name r = name \<and> v_number r = next_version)"
proof -
  define u where "u = (rid, name, number, model_id, False, True)"
  define seen where "seen = numbers_fixed before existing_numbers"
  define k where "k = Max (seen model_id) + 1"
  obtain w1 w' where h:
    "fix_all before existing_numbers (resolve_simple_entities w) = Inr (w1, seen)"
    "fix_all (before @ [u]) existing_numbers (resolve_simple_entities w) = fix_row u seen w1"
    "finite (seen model_id)" "number \<in> seen model_id"
    "resolve_duplicate_entities w = Inr w'"
    "\<exists>r \<in> set (model_version w'). v_id r = rid"
    "\<forall>r' \<in> set (model_version w'). v_id r' = rid \<longrightarrow>
         (\<exists>r \<in> set (model_version w). v_id r = rid \<and> v_name r = name \<and>
            r' = set_values_where rid (fst (plan_row u seen)) r)"
    using staged_row_run [OF assms(1,2,4)] unfolding u_def seen_def by blast
  have ne: "seen model_id \<noteq> {}" using h(4) by blast
  have step: "k \<notin> seen model_id \<and>
     fix_row u seen w1 =
       Inr (w1\<lparr>model_version :=
                 map (\<lambda>r. if v_id r = rid then r\<lparr>v_number := k\<rparr> else r) (model_version w1),
               executed := executed w1 @ [UpdateVersion rid None (Some k)]\<rparr>,
            seen(model_id := insert k (seen model_id)))"
    unfolding u_def
    by (rule fix_row_number_only_step
        [of number name seen model_id k rid w1, OF assms(3) h(3) ne k_def])
  have vals: "fst (plan_row u seen) = (None, Some k)"
    using assms(3) by (simp add: plan_row_def u_def k_def Let_def)
  have rows: "\<forall>r \<in> set (model_version w'). v_id r = rid \<longrightarrow> v_name r = name \<and> v_number r = k"
  proof (intro ballI impI)
    fix r' assume "r' \<in> set (model_version w')" "v_id r' = rid"
    then obtain r where r: "v_id r = rid" "v_name r = name"
        "r' = set_values_where rid (fst (plan_row u seen)) r"
      using h(7) by blast
    show "v_name r' = name \<and> v_number r' = k"
      unfolding r(3) vals using r(1,2) by (simp add: set_values_number)
  qed
  have f2: "fix_all (before @ [(rid, name, number, model_id, False, True)])
          existing_numbers (resolve_simple_entities w) =
        Inr (w1\<lparr>model_version :=
                  map (\<lambda>r. if v_id r = rid then r\<lparr>v_number := k\<rparr> else r) (model_version w1),
                executed := executed w1 @ [UpdateVersion rid None (Some k)]\<rparr>,
             seen(model_id := insert k (seen model_id)))"
    using h(2) step [THEN conjunct2] unfolding u_def by (rule trans)
  show ?thesis
    by (rule exI [of _ w1], rule exI [of _ seen], rule exI [of _ k], rule exI [of _ w'])
       (intro conjI h(1) h(3) h(4) k_def step [THEN conjunct1] f2 h(5) h(6) rows)
qed

theorem numeric_form_rows_get_name_and_number_together_witness:
  "detect (select_versions (model_version three_ones)) (\<lambda>_. {}) (\<lambda>_. {}) [] =
     ([(''v2'', ''1'', 1, ''m1'', True, True), (''v3'', ''1'', 1, ''m1'', True, True)],
      (\<lambda>_. {})(''m1'' := {''1''}), (\<lambda>_. {})(''m1'' := {1})) \<and>
   [(''v2'', ''1'', 1::int, ''m1'', True, True), (''v3'', ''1'', 1, ''m1'', True, True)] =
     [(''v2'', ''1'', 1, ''m1'', True, True)] @ (''v3'', ''1'', 1, ''m1'', True, True) # [] \<and>
   str_int 1 = ''1'' \<and>
   distinct (map v_id (model_version three_ones)) \<and>
   resolve_duplicate_entities three_ones =
     Inr (three_ones\<lparr>model_version :=
            [\<lparr>v_id = ''v1'', v_name = ''1'', v_number = 1, v_model_id = ''m1''\<rparr>,
             \<lparr>v_id = ''v2'', v_name = ''2'', v_number = 2, v_model_id = ''m1''\<rparr>,
             \<lparr>v_id = ''v3'', v_name = ''3'', v_number = 3, v_model_id = ''m1''\<rparr>],
            executed := [UpdateVersion ''v2'' (Some ''2'') (Some 2),
                         UpdateVersion ''v3'' (Some ''3'') (Some 3)],
            warnings := [(version_warning, [''1'', ''2'']),
                         (version_warning, [''1'', ''3''])]\<rparr>)"
proof -
  have det: "detect (select_versions (model_version three_ones)) (\<lambda>_. {}) (\<lambda>_. {}) [] =
     ([(''v2'', ''1'', 1, ''m1'', True, True), (''v3'', ''1'', 1, ''m1'', True, True)],
      (\<lambda>_. {})(''m1'' := {''1''}), (\<lambda>_. {})(''m1'' := {1}))"
    by (simp add: three_ones_def select_versions_def)
  have pos: "[(''v2'', ''1'', 1::int, ''m1'', True, True), (''v3'', ''1'', 1, ''m1'', True, True)] =
     [(''v2'', ''1'', 1, ''m1'', True, True)] @ (''v3'', ''1'', 1, ''m1'', True, True) # []"
    by simp
  have num: "str_int 1 = ''1''"
    by (simp add: str_int_def str_nat.simps digit_char_def)
  have ids: "distinct (map v_id (model_version three_ones))"
    by (simp add: three_ones_def)
  have r: "resolve_duplicate_entities three_ones =
     Inr (three_ones\<lparr>model_version :=
            [\<lparr>v_id = ''v1'', v_name = ''1'', v_number = 1, v_model_id = ''m1''\<rparr>,
             \<lparr>v_id = ''v2'', v_name = ''2'', v_number = 2, v_model_id = ''m1''\<rparr>,
             \<lparr>v_id = ''v3'', v_name = ''3'', v_number = 3, v_model_id = ''m1''\<rparr>],
            executed := [UpdateVersion ''v2'' (Some ''2'') (Some 2),
                         UpdateVersion ''v3'' (Some ''3'') (Some 3)],
            warnings := [(version_warning, [''1'', ''2'']),
                         (version_warning, [''1'', ''3''])]\<rparr>)"
    by (simp add: run_simps three_ones_def)
  obtain w' where "resolve_duplicate_entities three_ones = Inr w'"
    using numeric_form_rows_get_name_and_number_together [OF det pos num ids] by blast
  then show ?thesis using det pos num ids r by blast
qed

theorem custom_name_number_only_rows_keep_name_witness:
  "detect (select_versions (model_version three_custom)) (\<lambda>_. {}) (\<lambda>_. {}) [] =
     ([(''v2'', ''beta'', 1, ''m1'', False, True), (''v3'', ''gamma'', 1, ''m1'', False, True)],
      (\<lambda>_. {})(''m1'' := {''gamma'', ''beta'', ''alpha''}), (\<lambda>_. {})(''m1'' := {1})) \<and>
   [(''v2'', ''beta'', 1::int, ''m1'', False, True), (''v3'', ''gamma'', 1, ''m1'', False, True)] =
     [(''v2'', ''beta'', 1, ''m1'', False, True)] @
     (''v3'', ''gamma'', 1, ''m1'', False, True) # [] \<and>
   str_int 1 \<noteq> ''gamma'' \<and>
   distinct (map v_id (model_version three_custom)) \<and>
   resolve_duplicate_entities three_custom =
     Inr (three_custom\<lparr>model_version :=
            [\<lparr>v_id = ''v1'', v_name = ''alpha'', v_number = 1, v_model_id = ''m1''\<rparr>,
             \<lparr>v_id = ''v2'', v_name = ''beta'', v_number = 2, v_model_id = ''m1''\<rparr>,
             \<lparr>v_id = ''v3'', v_name = ''gamma'', v_number = 3, v_model_id = ''m1''\<rparr>],
            executed := [UpdateVersion ''v2'' None (Some 2),
                         UpdateVersion ''v3'' None (Some 3)]\<rparr>)"
proof -
  have det: "detect (select_versions (model_version three_custom)) (\<lambda>_. {}) (\<lambda>_. {}) [] =
     ([(''v2'', ''beta'', 1, ''m1'', False, True), (''v3'', ''gamma'', 1, ''m1'', False, True)],
      (\<lambda>_. {})(''m1'' := {''gamma'', ''beta'', ''alpha''}), (\<lambda>_. {})(''m1'' := {1}))"
    by (simp add: three_custom_def select_versions_def)
  have pos: "[(''v2'', ''beta'', 1::int, ''m1'', False, True),
              (''v3'', ''gamma'', 1, ''m1'', False, True)] =
     [(''v2'', ''beta'', 1, ''m1'', False, True)] @
     (''v3'', ''gamma'', 1, ''m1'', False, True) # []"
    by simp
  have num: "str_int 1 \<noteq> ''gamma''"
    by (simp add: str_int_def str_nat.simps digit_char_def)
  have ids: "distinct (map v_id (model_version three_custom))"
    by (simp add: three_custom_def)
  have r: "resolve_duplicate_entities three_custom =
     Inr (three_custom\<lparr>model_version :=
            [\<lparr>v_id = ''v1'', v_name = ''alpha'', v_number = 1, v_model_id = ''m1''\<rparr>,
             \<lparr>v_id = ''v2'', v_name = ''beta'', v_number = 2, v_model_id = ''m1''\<rparr>,
             \<lparr>v_id = ''v3'', v_name = ''gamma'', v_number = 3, v_model_id = ''m1''\<rparr>],
            executed := [UpdateVersion ''v2'' None (Some 2),
                         UpdateVersion ''v3'' None (Some 3)]\<rparr>)"
    by (simp add: run_simps three_custom_def)
  obtain w' where "resolve_duplicate_entities three_custom = Inr w'"
    using custom_name_number_only_rows_keep_name [OF det pos num ids] by blast
  then show ?thesis using det pos num ids r by blast
qed

end
